theory Spec2Isabelle
  imports Complex_Main
begin

section \<open>JavaScript strings\<close>

text \<open>
  A JavaScript string is a sequence of UTF-16 code units; \<open>length\<close>, \<open>charAt\<close>,
  \<open>slice\<close>, \<open>includes\<close> and the regular expressions of the program all work on code
  units. A code unit is a natural number below 65536. \<open>js\<close> reads an ASCII literal.
\<close>

type_synonym jschar = nat
type_synonym jsstring = "jschar list"

definition js :: "string \<Rightarrow> jsstring" where
  "js s = map of_char s"

text \<open>
  The class WhiteSpace + LineTerminator of ECMAScript, which both \<open>\s\<close> and
  \<open>String.prototype.trim\<close> use: TAB, LF, VT, FF, CR, SP, NBSP, U+1680,
  U+2000..U+200A, U+2028, U+2029, U+202F, U+205F, U+3000, U+FEFF.
\<close>

definition isWhiteSpace :: "jschar \<Rightarrow> bool" where
  "isWhiteSpace c =
     ((9 \<le> c \<and> c \<le> 13) \<or> c = 32 \<or> c = 160 \<or> c = 5760 \<or> (8192 \<le> c \<and> c \<le> 8202)
      \<or> c = 8232 \<or> c = 8233 \<or> c = 8239 \<or> c = 8287 \<or> c = 12288 \<or> c = 65279)"

definition trim :: "jsstring \<Rightarrow> jsstring" where
  "trim s = rev (dropWhile isWhiteSpace (rev (dropWhile isWhiteSpace s)))"

text \<open>
  The lowering of the resolver: \<open>String.prototype.toLowerCase\<close> on Basic Latin and
  Latin-1, mapped as Unicode does (U+00D7, the multiplication sign, has no lower case),
  and on the code units beyond Latin-1 whose lower case lands in Basic Latin or Latin-1
  (U+0130, U+0178, U+1E9E, U+212A, U+212B); the other code units are left as they are.
  The resolver lowers the names it is called with, which its caller has lowered
  already (line 446 of the seeding script), and the labels of the endpoint, which
  \<open>isLatinName\<close> then rejects as soon as one code unit lies beyond Latin-1 and is
  not white space, lowered or not. The suggest endpoint, which lowers queries and
  engine values in any script, does not use this function: see \<open>lowering\<close> below.
\<close>

definition lowerUnit :: "jschar \<Rightarrow> jsstring" where
  "lowerUnit c =
     (if 65 \<le> c \<and> c \<le> 90 then [c + 32]
      else if 192 \<le> c \<and> c \<le> 222 \<and> c \<noteq> 215 then [c + 32]
      else if c = 304 then [105, 775]
      else if c = 376 then [255]
      else if c = 7838 then [223]
      else if c = 8490 then [107]
      else if c = 8491 then [229]
      else [c])"

definition toLowerCase :: "jsstring \<Rightarrow> jsstring" where
  "toLowerCase s = concat (map lowerUnit s)"

text \<open>
  \<open>String.prototype.toUpperCase\<close> on Basic Latin and Latin-1 (U+00DF becomes "SS",
  U+00FF becomes U+0178, U+00B5 becomes U+039C, U+00F7 has no upper case); other code
  units are left as they are. It is only used to build the label sent to the endpoint.
\<close>

definition upperUnit :: "jschar \<Rightarrow> jsstring" where
  "upperUnit c =
     (if 97 \<le> c \<and> c \<le> 122 then [c - 32]
      else if 224 \<le> c \<and> c \<le> 254 \<and> c \<noteq> 247 then [c - 32]
      else if c = 223 then [83, 83]
      else if c = 255 then [376]
      else if c = 181 then [924]
      else [c])"

definition toUpperCase :: "jsstring \<Rightarrow> jsstring" where
  "toUpperCase s = concat (map upperUnit s)"

text \<open>\<open>s.includes(t)\<close>: \<open>t\<close> occurs in \<open>s\<close> as a contiguous run of code units.\<close>

fun startsWith :: "jsstring \<Rightarrow> jsstring \<Rightarrow> bool" where
  "startsWith s [] = True"
| "startsWith [] (t # ts) = False"
| "startsWith (c # cs) (t # ts) = (c = t \<and> startsWith cs ts)"

fun includesStr :: "jsstring \<Rightarrow> jsstring \<Rightarrow> bool" where
  "includesStr [] t = (t = [])"
| "includesStr (c # cs) t = (startsWith (c # cs) t \<or> includesStr cs t)"

text \<open>
  \<open>[...new Set(xs)]\<close>: a Set keeps the first occurrence of each value, in insertion
  order.
\<close>

definition setAdd :: "'a list \<Rightarrow> 'a \<Rightarrow> 'a list" where
  "setAdd acc x = (if x \<in> set acc then acc else acc @ [x])"

definition newSet :: "'a list \<Rightarrow> 'a list" where
  "newSet xs = foldl setAdd [] xs"


section \<open>The name-variant resolver (server/nameVariants.js)\<close>

text \<open>\<open>isLatinName\<close>: the regular expression \<open>/^[a-zA-Z\<dots>-\<dots>\s\-']+$/\<close>, whose third
  range runs from U+00C0 to U+00FF.\<close>

definition isLatinChar :: "jschar \<Rightarrow> bool" where
  "isLatinChar c =
     ((97 \<le> c \<and> c \<le> 122) \<or> (65 \<le> c \<and> c \<le> 90) \<or> (192 \<le> c \<and> c \<le> 255)
      \<or> isWhiteSpace c \<or> c = 45 \<or> c = 39)"

definition isLatinName :: "jsstring \<Rightarrow> bool" where
  "isLatinName str = (str \<noteq> [] \<and> list_all isLatinChar str)"

text \<open>
  The request sent to the endpoint: the SPARQL text is fixed up to the capitalised
  label and ends in \<open>LIMIT 30\<close>; the fetch is aborted by a timer of 5000 ms.
\<close>

record sparqlRequest =
  label :: jsstring
  limit :: nat
  abortAfterMs :: nat

text \<open>
  An error object: its name, its message and, for the errors of the search engine,
  the \<open>meta?.body?.error\<close> it may carry (kept as text).
  What the endpoint does with a request: \<open>fetch\<close> rejects (by the abort timer,
  \<open>error.name === 'AbortError'\<close>, or by another error); the response is not ok; the
  response is ok and reading its body throws (\<open>response.json()\<close> rejects, or
  \<open>data.results.bindings\<close> is not there, or a label is not a string); the response is
  ok and holds bindings, each with the \<open>variantLabel?.value\<close> it carries, if any.
\<close>

datatype jsError = JsError (errName: jsstring) (errMessage: jsstring) (errDetails: "jsstring option")

definition abortError :: jsError where
  "abortError = JsError (js ''AbortError'') (js ''This operation was aborted'') None"

datatype outcome =
    FetchRejects jsError
  | ResponseNotOk
  | BodyThrows jsError
  | Bindings "jsstring option list"

text \<open>The endpoint may answer differently over time: it sees how many requests came before.\<close>

type_synonym endpoint = "nat \<Rightarrow> sparqlRequest \<Rightarrow> outcome"

text \<open>The module state: the cache (a Map) and the log of the requests issued so far.\<close>

record resolver =
  cache :: "jsstring \<rightharpoonup> jsstring list"
  requests :: "sparqlRequest list"

definition normalize :: "jsstring \<Rightarrow> jsstring" where
  "normalize firstName = trim (toLowerCase firstName)"

definition capitalize :: "jsstring \<Rightarrow> jsstring" where
  "capitalize normalizedName = toUpperCase (take 1 normalizedName) @ drop 1 normalizedName"

definition buildRequest :: "jsstring \<Rightarrow> sparqlRequest" where
  "buildRequest normalizedName =
     \<lparr> label = capitalize normalizedName, limit = 30, abortAfterMs = 5000 \<rparr>"

text \<open>Lines 71-77: lower the labels, drop the missing and empty ones, filter, deduplicate.\<close>

definition lowerLabels :: "jsstring option list \<Rightarrow> jsstring list" where
  "lowerLabels bindings = map toLowerCase (List.map_filter (\<lambda>b. b) bindings)"

definition extractVariants :: "jsstring option list \<Rightarrow> jsstring list" where
  "extractVariants bindings =
     newSet (filter (\<lambda>v. 2 \<le> length v \<and> length v \<le> 20)
              (filter isLatinName
                (filter (\<lambda>v. v \<noteq> []) (lowerLabels bindings))))"

text \<open>Line 80: the family is the searched name followed by the variants, deduplicated.\<close>

definition nameFamilyOf :: "jsstring \<Rightarrow> jsstring option list \<Rightarrow> jsstring list" where
  "nameFamilyOf normalizedName bindings = newSet (normalizedName # extractVariants bindings)"

text \<open>Lines 84-89: the loop over the family writes only the names the cache does not hold.\<close>

fun cacheFamily :: "jsstring list \<Rightarrow> jsstring list \<Rightarrow> (jsstring \<rightharpoonup> jsstring list)
    \<Rightarrow> (jsstring \<rightharpoonup> jsstring list)" where
  "cacheFamily nameFamily [] c = c"
| "cacheFamily nameFamily (name # rest) c =
     cacheFamily nameFamily rest
       (if c name = None then c(name \<mapsto> filter (\<lambda>v. v \<noteq> name) nameFamily) else c)"

text \<open>
  The body of the \<open>try\<close> block, entered on a cache miss. It returns the state it leaves
  behind and either the error thrown or the list returned.
\<close>

definition tryLookup :: "endpoint \<Rightarrow> resolver \<Rightarrow> jsstring \<Rightarrow> (jsError + jsstring list) \<times> resolver" where
  "tryLookup ep st normalizedName =
     (let req = buildRequest normalizedName;
          st1 = st\<lparr>requests := requests st @ [req]\<rparr>
      in case ep (length (requests st)) req of
           FetchRejects e \<Rightarrow> (Inl e, st1)
         | ResponseNotOk \<Rightarrow> (Inr [], st1\<lparr>cache := (cache st1)(normalizedName \<mapsto> [])\<rparr>)
         | BodyThrows e \<Rightarrow> (Inl e, st1)
         | Bindings bindings \<Rightarrow>
             (let nameFamily = nameFamilyOf normalizedName bindings;
                  st2 = st1\<lparr>cache := cacheFamily nameFamily nameFamily (cache st1)\<rparr>
              in (Inr (filter (\<lambda>v. v \<noteq> normalizedName) nameFamily), st2)))"

text \<open>
  \<open>getNameVariants\<close>: the cache check, the \<open>try\<close> block and its \<open>catch\<close>. The result is
  what the caller sees: \<open>Inl\<close> an error thrown to it, \<open>Inr\<close> the list returned.
\<close>

definition getNameVariants :: "endpoint \<Rightarrow> resolver \<Rightarrow> jsstring \<Rightarrow> (jsError + jsstring list) \<times> resolver" where
  "getNameVariants ep st firstName =
     (let normalizedName = normalize firstName
      in case cache st normalizedName of
           Some cached \<Rightarrow> (Inr cached, st)
         | None \<Rightarrow>
             (case tryLookup ep st normalizedName of
                (Inl error, st1) \<Rightarrow> (Inr [], st1\<lparr>cache := (cache st1)(normalizedName \<mapsto> [])\<rparr>)
              | (Inr variants, st1) \<Rightarrow> (Inr variants, st1)))"

text \<open>Calls made one after the other, as the seeding script makes them.\<close>

fun runLookups :: "endpoint \<Rightarrow> resolver \<Rightarrow> jsstring list \<Rightarrow> resolver" where
  "runLookups ep st [] = st"
| "runLookups ep st (n # ns) = runLookups ep (snd (getNameVariants ep st n)) ns"

text \<open>The outcomes on which the lookup fails: every one but an ok response with bindings.\<close>

definition lookupFails :: "outcome \<Rightarrow> bool" where
  "lookupFails out = (case out of Bindings bs \<Rightarrow> False | _ \<Rightarrow> True)"

text \<open>A fresh process, and an endpoint that times out on the first request and answers
  the later ones with the single label "Kristoffer".\<close>

definition emptyResolver :: resolver where
  "emptyResolver = \<lparr> cache = Map.empty, requests = [] \<rparr>"

definition timesOutThenAnswers :: endpoint where
  "timesOutThenAnswers k req =
     (if k = 0 then FetchRejects abortError else Bindings [Some (js ''Kristoffer'')])"

text \<open>The state that timed-out lookup of "kristoffer" leaves behind in a fresh process.\<close>

definition afterTimeout :: resolver where
  "afterTimeout = snd (getNameVariants timesOutThenAnswers emptyResolver (js ''kristoffer''))"

text \<open>An endpoint that answers every request with six bindings: two spellings, a binding
  without a label, a Cyrillic label, a repeated spelling and a one-letter label.\<close>

definition wikidataAnswers :: endpoint where
  "wikidataAnswers k req =
     Bindings [Some (js ''Kristoffer''), None, Some (js ''Christoph''), Some [1050, 1088],
               Some (js ''kristoffer''), Some (js ''C'')]"

text \<open>An endpoint whose only label starts with a space.\<close>

definition paddedAnswer :: endpoint where
  "paddedAnswer k req = Bindings [Some (js '' Kristoffer'')]"

section \<open>The suggest endpoint (server/index.js)\<close>

text \<open>
  The handler lowers the query and the values the engine returns, text in any script,
  with \<open>String.prototype.toLowerCase\<close>. The Unicode case tables of the platform are
  not part of the repository: every function of the handler that lowers text takes the
  platform's \<open>toLowerCase\<close> as its first argument, \<open>lower\<close>.
\<close>

type_synonym lowering = "jsstring \<Rightarrow> jsstring"

subsection \<open>The regular expression \<open>/\b(19|20)\d{0,2}\b/g\<close>\<close>

definition isDigit :: "jschar \<Rightarrow> bool" where
  "isDigit c = (48 \<le> c \<and> c \<le> 57)"

text \<open>The class \<open>\w\<close>: digits, letters of Basic Latin and the underscore.\<close>

definition isWordChar :: "jschar \<Rightarrow> bool" where
  "isWordChar c = (isDigit c \<or> (65 \<le> c \<and> c \<le> 90) \<or> c = 95 \<or> (97 \<le> c \<and> c \<le> 122))"

text \<open>
  \<open>\b\<close> holds between two positions when exactly one side is a word character; the
  start and the end of the string count as not a word character. \<open>prevWord\<close> tells
  if the code unit before the position is a word character.
\<close>

definition atBoundary :: "bool \<Rightarrow> jsstring \<Rightarrow> bool" where
  "atBoundary prevWord rest = (prevWord \<noteq> (case rest of [] \<Rightarrow> False | c # cs \<Rightarrow> isWordChar c))"

text \<open>\<open>\d{k}\b\<close> matches at the head of \<open>rest\<close>, the code unit before being a digit.\<close>

definition digitsThenBoundary :: "nat \<Rightarrow> jsstring \<Rightarrow> bool" where
  "digitsThenBoundary k rest =
     (k \<le> length rest \<and> list_all isDigit (take k rest) \<and> atBoundary True (drop k rest))"

text \<open>
  The match of the whole expression at one position, if any, as its length: the
  boundary, "19" or "20", then the greedy \<open>\d{0,2}\<close>, which tries two digits, then one,
  then none, each followed by the closing boundary.
\<close>

definition matchYear :: "bool \<Rightarrow> jsstring \<Rightarrow> nat option" where
  "matchYear prevWord s =
     (if atBoundary prevWord s \<and> (startsWith s (js ''19'') \<or> startsWith s (js ''20'')) then
        (if digitsThenBoundary 2 (drop 2 s) then Some 4
         else if digitsThenBoundary 1 (drop 2 s) then Some 3
         else if digitsThenBoundary 0 (drop 2 s) then Some 2
         else None)
      else None)"

text \<open>
  The global scan that \<open>match\<close> and \<open>replace\<close> both make: at each position either the
  expression matches, and the scan goes on after the match, or the code unit is kept
  and the scan moves one position on.
\<close>

datatype piece = Matched jsstring | Kept jschar

fun scanYears :: "bool \<Rightarrow> jsstring \<Rightarrow> piece list" where
  "scanYears prevWord [] = []"
| "scanYears prevWord (c # cs) =
     (case matchYear prevWord (c # cs) of
        Some n \<Rightarrow> Matched (take n (c # cs)) # scanYears True (drop (n - 1) cs)
      | None \<Rightarrow> Kept c # scanYears (isWordChar c) cs)"

fun matchedOf :: "piece list \<Rightarrow> jsstring list" where
  "matchedOf [] = []"
| "matchedOf (Matched m # ps) = m # matchedOf ps"
| "matchedOf (Kept c # ps) = matchedOf ps"

fun keptOf :: "piece list \<Rightarrow> jsstring" where
  "keptOf [] = []"
| "keptOf (Matched m # ps) = keptOf ps"
| "keptOf (Kept c # ps) = c # keptOf ps"

text \<open>\<open>q.match(re)\<close> is \<open>null\<close> when nothing matches.\<close>

definition yearPattern :: "jsstring \<Rightarrow> jsstring list option" where
  "yearPattern q =
     (let ms = matchedOf (scanYears False q) in if ms = [] then None else Some ms)"

definition textQuery :: "jsstring \<Rightarrow> jsstring" where
  "textQuery q = trim (keptOf (scanYears False q))"

text \<open>\<open>split(/\s+/)\<close>: the fields between the runs of white space, empty ones included.\<close>

function splitWhiteSpace :: "jsstring \<Rightarrow> jsstring \<Rightarrow> jsstring list" where
  "splitWhiteSpace cur [] = [cur]"
| "splitWhiteSpace cur (c # cs) =
     (if isWhiteSpace c then cur # splitWhiteSpace [] (dropWhile isWhiteSpace cs)
      else splitWhiteSpace (cur @ [c]) cs)"
  by pat_completeness auto
termination
  by (relation "measure (\<lambda>(cur, s). length s)")
     (auto simp: length_dropWhile_le intro: le_imp_less_Suc)

definition queryTerms :: "lowering \<Rightarrow> jsstring \<Rightarrow> jsstring list" where
  "queryTerms lower q = filter (\<lambda>t. t \<noteq> []) (splitWhiteSpace [] (lower (textQuery q)))"

subsection \<open>Requests to the search engine\<close>

text \<open>
  The active filters, as parsed from the query parameters. The numbers that the
  \<open>years\<close> parameter parses to are of a type \<open>'n\<close> left open; \<open>toNumber\<close> stands for
  \<open>Number\<close> followed by the truthiness test of \<open>filter(Boolean)\<close>: \<open>None\<close> for \<open>NaN\<close>
  and for zero.
\<close>

record 'n activeFilters =
  authors :: "jsstring list"
  genres :: "jsstring list"
  years :: "'n list"

function splitComma :: "jsstring \<Rightarrow> jsstring \<Rightarrow> jsstring list" where
  "splitComma cur [] = [cur]"
| "splitComma cur (c # cs) =
     (if c = 44 then cur # splitComma [] cs else splitComma (cur @ [c]) cs)"
  by pat_completeness auto
termination
  by (relation "measure (\<lambda>(cur, s). length s)") auto

definition parseList :: "jsstring \<Rightarrow> jsstring list" where
  "parseList param = (if param = [] then [] else splitComma [] param)"

definition parseFilters :: "(jsstring \<Rightarrow> 'n option) \<Rightarrow> jsstring \<Rightarrow> jsstring \<Rightarrow> jsstring
    \<Rightarrow> 'n activeFilters" where
  "parseFilters toNumber authorsParam genresParam yearsParam =
     \<lparr> authors = parseList authorsParam,
       genres = parseList genresParam,
       years = List.map_filter toNumber (parseList yearsParam) \<rparr>"

text \<open>The clauses of a query: \<open>match\<close> (field, query, operator, boost) and \<open>prefix\<close>
  (field, value, case_insensitive); the \<open>terms\<close> filters, on strings or on numbers.\<close>

datatype clause =
    Match string jsstring "string option" "rat option"
  | Prefix string jsstring bool

datatype 'n termsFilter =
    TermsStr string "jsstring list"
  | TermsNum string "'n list"

fun termsField :: "'n termsFilter \<Rightarrow> string" where
  "termsField (TermsStr f vs) = f"
| "termsField (TermsNum f vs) = f"

record aggregation =
  aggName :: string
  aggField :: string
  aggSize :: nat
  aggOrderKeyDesc :: bool

record 'n searchRequest =
  index :: string
  bodySize :: nat
  should :: "clause list"
  minimumShouldMatch :: "nat option"
  filterClauses :: "'n termsFilter list"
  aggs :: "aggregation option"
  source :: "string list option"

text \<open>\<open>buildFilterClause\<close> (lines 429-441).\<close>

definition buildFilterClause :: "'n activeFilters \<Rightarrow> 'n termsFilter list" where
  "buildFilterClause af =
     (if length (authors af) > 0 then [TermsStr ''author.keyword'' (authors af)] else [])
     @ (if length (genres af) > 0 then [TermsStr ''genre'' (genres af)] else [])
     @ (if length (years af) > 0 then [TermsNum ''releaseYear'' (years af)] else [])"

text \<open>\<open>buildFilterClause().filter((f) => !f.terms?.[field])\<close>: the value under the field
  is an array, which is truthy, so the clause on that field is the one dropped.\<close>

definition withoutField :: "string \<Rightarrow> 'n termsFilter list \<Rightarrow> 'n termsFilter list" where
  "withoutField field fs = filter (\<lambda>f. termsField f \<noteq> field) fs"

definition authorsRequest :: "bool \<Rightarrow> jsstring \<Rightarrow> 'n activeFilters \<Rightarrow> 'n searchRequest" where
  "authorsRequest hasPhoneticFields tq af =
     \<lparr> index = ''books'', bodySize = 0,
       should = [Match ''author.autocomplete'' tq (Some ''or'') None,
                 Match ''nameVariants'' tq None (Some (8 / 10))]
                @ (if hasPhoneticFields then [Match ''author.phonetic'' tq None (Some (5 / 10))]
                   else []),
       minimumShouldMatch = None,
       filterClauses = withoutField ''author.keyword'' (buildFilterClause af),
       aggs = Some \<lparr> aggName = ''authors'', aggField = ''author.keyword'', aggSize = 5,
                     aggOrderKeyDesc = False \<rparr>,
       source = None \<rparr>"

definition titlesRequest :: "bool \<Rightarrow> jsstring \<Rightarrow> 'n activeFilters \<Rightarrow> 'n searchRequest" where
  "titlesRequest hasPhoneticFields tq af =
     \<lparr> index = ''books'', bodySize = 5,
       should = [Match ''title.autocomplete'' tq (Some ''or'') (Some 2),
                 Match ''author.autocomplete'' tq (Some ''or'') None,
                 Match ''nameVariants'' tq None (Some (8 / 10))]
                @ (if hasPhoneticFields
                   then [Match ''title.phonetic'' tq None (Some (5 / 10)),
                         Match ''author.phonetic'' tq None (Some (3 / 10))]
                   else []),
       minimumShouldMatch = None,
       filterClauses = buildFilterClause af,
       aggs = None,
       source = Some [''title'', ''author'', ''releaseYear'', ''rating'', ''genre''] \<rparr>"

definition genresRequest :: "jsstring list \<Rightarrow> 'n activeFilters \<Rightarrow> 'n searchRequest" where
  "genresRequest terms af =
     \<lparr> index = ''books'', bodySize = 0,
       should = map (\<lambda>term. Prefix ''genre'' term True) terms,
       minimumShouldMatch = None,
       filterClauses = withoutField ''genre'' (buildFilterClause af),
       aggs = Some \<lparr> aggName = ''genres'', aggField = ''genre'', aggSize = 5,
                     aggOrderKeyDesc = False \<rparr>,
       source = None \<rparr>"

definition yearsRequest :: "jsstring list \<Rightarrow> 'n activeFilters \<Rightarrow> 'n searchRequest" where
  "yearsRequest yps af =
     \<lparr> index = ''books'', bodySize = 0,
       should = map (\<lambda>yp. Match ''releaseYear.autocomplete'' yp None None) yps,
       minimumShouldMatch = Some 1,
       filterClauses = withoutField ''releaseYear'' (buildFilterClause af),
       aggs = Some \<lparr> aggName = ''years'', aggField = ''releaseYear'', aggSize = 10,
                     aggOrderKeyDesc = True \<rparr>,
       source = None \<rparr>"

subsection \<open>Answers of the search engine\<close>

text \<open>A bucket key is a string (keyword fields) or a number (\<open>releaseYear\<close>).\<close>

datatype key = KStr jsstring | KNum int

record bucket =
  key :: key
  doc_count :: nat

record hit =
  hitId :: jsstring
  hitTitle :: jsstring
  hitAuthor :: jsstring
  hitReleaseYear :: int
  hitRating :: rat

text \<open>The body of an answer: \<open>hits?.hits\<close> and, by name, \<open>aggregations?.name?.buckets\<close>.
  The OpenSearch client wraps the body in \<open>body\<close>, the Elasticsearch client does not.\<close>

record searchBody =
  hits :: "hit list option"
  aggregations :: "string \<rightharpoonup> bucket list"

datatype searchResult = Wrapped searchBody | Bare searchBody

fun unwrap :: "searchResult \<Rightarrow> searchBody" where
  "unwrap (Wrapped b) = b"
| "unwrap (Bare b) = b"

definition bucketsOf :: "string \<Rightarrow> searchBody \<Rightarrow> bucket list" where
  "bucketsOf name b = (case aggregations b name of Some bs \<Rightarrow> bs | None \<Rightarrow> [])"

definition hitsOf :: "searchBody \<Rightarrow> hit list" where
  "hitsOf b = (case hits b of Some hs \<Rightarrow> hs | None \<Rightarrow> [])"

text \<open>What stands in for a query that is not issued.\<close>

definition noBuckets :: "string \<Rightarrow> searchResult" where
  "noBuckets name = Bare \<lparr> hits = None, aggregations = [name \<mapsto> []] \<rparr>"

definition noHits :: searchResult where
  "noHits = Bare \<lparr> hits = Some [], aggregations = Map.empty \<rparr>"

type_synonym 'n engine = "'n searchRequest \<Rightarrow> jsError + searchResult"

text \<open>
  \<open>Promise.all\<close>: it rejects with the error of the promise that rejects first, and
  resolves with all the values when none rejects. \<open>order\<close> is the order in which the
  promises settle, by position; positions it does not name settle last, in array order.
\<close>

fun firstRejection :: "nat list \<Rightarrow> (jsError + 'a) list \<Rightarrow> jsError option" where
  "firstRejection [] rs = None"
| "firstRejection (i # order) rs =
     (if i < length rs
      then (case rs ! i of Inl e \<Rightarrow> Some e | Inr v \<Rightarrow> firstRejection order rs)
      else firstRejection order rs)"

fun resolved :: "(jsError + 'a) list \<Rightarrow> 'a list" where
  "resolved [] = []"
| "resolved (Inr v # rs) = v # resolved rs"
| "resolved (Inl e # rs) = resolved rs"

definition promiseAll :: "nat list \<Rightarrow> (jsError + 'a) list \<Rightarrow> jsError + 'a list" where
  "promiseAll order rs =
     (case firstRejection (order @ [0..<length rs]) rs of
        Some e \<Rightarrow> Inl e
      | None \<Rightarrow> Inr (resolved rs))"

subsection \<open>The response\<close>

record suggestion =
  sugValue :: key
  sugCount :: nat
  matchedTerms :: "jsstring list"

record titleSuggestion =
  titleId :: jsstring
  titleValue :: jsstring
  titleAuthor :: jsstring
  titleYear :: int
  titleRating :: rat
  titleMatchedTerms :: "jsstring list"

record yearSuggestion =
  yearValue :: key
  yearCount :: nat

record 'n suggestions =
  query :: jsstring
  resTextQuery :: jsstring
  resYearPattern :: "jsstring list option"
  resAuthors :: "suggestion list"
  resTitles :: "titleSuggestion list"
  resGenres :: "suggestion list"
  resYears :: "yearSuggestion list"
  resActiveFilters :: "'n activeFilters"

text \<open>The three responses of the handler: the four empty lists with the query echoed
  (status 200), the full answer (status 200), and the error (status 500) with the
  message and the details of the error.\<close>

datatype 'n response =
    EmptyLists "jsstring option"
  | Suggestions "'n suggestions"
  | Error500 jsstring "jsstring option"

text \<open>\<open>findMatchedTerms\<close> (lines 575-578). \<open>toLowerCase\<close> is not a function on a number:
  a numeric key throws a TypeError.\<close>

definition notAFunction :: jsError where
  "notAFunction = JsError (js ''TypeError'') (js ''value.toLowerCase is not a function'') None"

definition findMatchedTerms :: "lowering \<Rightarrow> key \<Rightarrow> jsstring list \<Rightarrow> jsError + jsstring list"
  where
  "findMatchedTerms lower v terms =
     (case v of
        KStr str \<Rightarrow> Inr (filter (\<lambda>term. includesStr (lower str) term) terms)
      | KNum n \<Rightarrow> Inl notAFunction)"

text \<open>\<open>Array.prototype.map\<close> with a callback that may throw: the first throw ends it.\<close>

fun mapThrowing :: "('a \<Rightarrow> jsError + 'b) \<Rightarrow> 'a list \<Rightarrow> jsError + 'b list" where
  "mapThrowing f [] = Inr []"
| "mapThrowing f (x # xs) =
     (case f x of
        Inl e \<Rightarrow> Inl e
      | Inr y \<Rightarrow> (case mapThrowing f xs of Inl e \<Rightarrow> Inl e | Inr ys \<Rightarrow> Inr (y # ys)))"

definition bucketSuggestion :: "lowering \<Rightarrow> jsstring list \<Rightarrow> bucket \<Rightarrow> jsError + suggestion"
  where
  "bucketSuggestion lower terms b =
     (case findMatchedTerms lower (key b) terms of
        Inl e \<Rightarrow> Inl e
      | Inr ms \<Rightarrow> Inr \<lparr> sugValue = key b, sugCount = doc_count b, matchedTerms = ms \<rparr>)"

definition hitSuggestion :: "lowering \<Rightarrow> jsstring list \<Rightarrow> hit \<Rightarrow> jsError + titleSuggestion"
  where
  "hitSuggestion lower terms h =
     (case findMatchedTerms lower (KStr (hitTitle h)) terms of
        Inl e \<Rightarrow> Inl e
      | Inr ms \<Rightarrow> Inr \<lparr> titleId = hitId h, titleValue = hitTitle h, titleAuthor = hitAuthor h,
                        titleYear = hitReleaseYear h, titleRating = hitRating h,
                        titleMatchedTerms = ms \<rparr>)"

text \<open>\<open>String(value)\<close> of a key: a string is itself, an integer is written in decimal.\<close>

fun digitsOf :: "nat \<Rightarrow> jsstring" where
  "digitsOf n = (if n < 10 then [48 + n] else digitsOf (n div 10) @ [48 + n mod 10])"

definition toString :: "key \<Rightarrow> jsstring" where
  "toString k =
     (case k of
        KStr s \<Rightarrow> s
      | KNum i \<Rightarrow> (if i < 0 then 45 # digitsOf (nat (- i)) else digitsOf (nat i)))"

definition yearMatches :: "jsstring list \<Rightarrow> yearSuggestion \<Rightarrow> bool" where
  "yearMatches yps y = list_ex (\<lambda>yp. startsWith (toString (yearValue y)) yp) yps"

text \<open>Lines 583-632: from the four resolved answers to the response.\<close>

definition buildResponse :: "lowering \<Rightarrow> jsstring \<Rightarrow> 'n activeFilters \<Rightarrow> searchResult \<Rightarrow> searchResult
    \<Rightarrow> searchResult \<Rightarrow> searchResult \<Rightarrow> jsError + 'n suggestions" where
  "buildResponse lower q af authorsResult titlesResult genresResult yearsResult =
     (case mapThrowing (bucketSuggestion lower (queryTerms lower q))
             (bucketsOf ''authors'' (unwrap authorsResult)) of
        Inl e \<Rightarrow> Inl e
      | Inr authorsList \<Rightarrow>
     (case mapThrowing (hitSuggestion lower (queryTerms lower q)) (hitsOf (unwrap titlesResult)) of
        Inl e \<Rightarrow> Inl e
      | Inr titlesList \<Rightarrow>
     (case mapThrowing (bucketSuggestion lower (queryTerms lower q))
             (bucketsOf ''genres'' (unwrap genresResult)) of
        Inl e \<Rightarrow> Inl e
      | Inr genresList \<Rightarrow>
          (let yearsList = map (\<lambda>b. \<lparr> yearValue = key b, yearCount = doc_count b \<rparr>)
                             (bucketsOf ''years'' (unwrap yearsResult));
               yearsList = (case yearPattern q of
                              Some yps \<Rightarrow> filter (yearMatches yps) yearsList
                            | None \<Rightarrow> yearsList)
           in Inr \<lparr> query = q, resTextQuery = textQuery q, resYearPattern = yearPattern q,
                    resAuthors = authorsList, resTitles = titlesList, resGenres = genresList,
                    resYears = yearsList, resActiveFilters = af \<rparr>))))"

text \<open>
  The queries of the fan-out (lines 445-572): each is issued, or replaced by its empty
  stand-in, by its own gate.
\<close>

definition fanOut :: "lowering \<Rightarrow> bool \<Rightarrow> jsstring \<Rightarrow> 'n activeFilters
    \<Rightarrow> ('n searchRequest + searchResult) list" where
  "fanOut lower hasPhoneticFields q af =
     [ if length (textQuery q) \<ge> 2 then Inl (authorsRequest hasPhoneticFields (textQuery q) af)
       else Inr (noBuckets ''authors''),
       if length (textQuery q) \<ge> 2 then Inl (titlesRequest hasPhoneticFields (textQuery q) af)
       else Inr noHits,
       if length (textQuery q) \<ge> 2 then Inl (genresRequest (queryTerms lower q) af)
       else Inr (noBuckets ''genres''),
       case yearPattern q of
         Some yps \<Rightarrow> Inl (yearsRequest yps af)
       | None \<Rightarrow> Inr (noBuckets ''years'') ]"

fun issued :: "('r + 'v) list \<Rightarrow> 'r list" where
  "issued [] = []"
| "issued (Inl r # xs) = r # issued xs"
| "issued (Inr v # xs) = issued xs"

definition settle :: "'n engine \<Rightarrow> 'n searchRequest + searchResult \<Rightarrow> jsError + searchResult" where
  "settle es x = (case x of Inl r \<Rightarrow> es r | Inr v \<Rightarrow> Inr v)"

text \<open>
  The handler of \<open>GET /api/suggest\<close>. \<open>q\<close> is the query parameter, if given. The result
  is the response and the engine requests issued.
\<close>

definition suggest :: "lowering \<Rightarrow> bool \<Rightarrow> 'n engine \<Rightarrow> nat list \<Rightarrow> jsstring option
    \<Rightarrow> 'n activeFilters \<Rightarrow> 'n response \<times> 'n searchRequest list" where
  "suggest lower hasPhoneticFields es order qParam af =
     (case qParam of
        None \<Rightarrow> (EmptyLists None, [])
      | Some q \<Rightarrow>
          if length q < 2 then (EmptyLists (Some q), [])
          else
            (let calls = fanOut lower hasPhoneticFields q af
             in case promiseAll order (map (settle es) calls) of
                  Inl e \<Rightarrow> (Error500 (errMessage e) (errDetails e), issued calls)
                | Inr results \<Rightarrow>
                    (case buildResponse lower q af (results ! 0) (results ! 1) (results ! 2)
                            (results ! 3) of
                       Inl e \<Rightarrow> (Error500 (errMessage e) (errDetails e), issued calls)
                     | Inr payload \<Rightarrow> (Suggestions payload, issued calls))))"

text \<open>The handler on the raw query parameters \<open>authors\<close>, \<open>genres\<close> and \<open>years\<close>
  (the empty string when one is not given).\<close>

definition handleSuggest :: "lowering \<Rightarrow> bool \<Rightarrow> (jsstring \<Rightarrow> 'n option) \<Rightarrow> 'n engine
    \<Rightarrow> nat list \<Rightarrow> jsstring option \<Rightarrow> jsstring \<Rightarrow> jsstring \<Rightarrow> jsstring
    \<Rightarrow> 'n response \<times> 'n searchRequest list" where
  "handleSuggest lower hasPhoneticFields toNumber es order qParam authorsParam genresParam
      yearsParam =
     suggest lower hasPhoneticFields es order qParam
       (parseFilters toNumber authorsParam genresParam yearsParam)"

text \<open>The four lists of a response with status 200.\<close>

fun fourLists :: "'n response
    \<Rightarrow> (suggestion list \<times> titleSuggestion list \<times> suggestion list \<times> yearSuggestion list) option"
  where
  "fourLists (EmptyLists q) = Some ([], [], [], [])"
| "fourLists (Suggestions p) = Some (resAuthors p, resTitles p, resGenres p, resYears p)"
| "fourLists (Error500 m d) = None"


text \<open>The status of a response.\<close>

fun statusOf :: "'n response \<Rightarrow> nat" where
  "statusOf (EmptyLists q) = 200"
| "statusOf (Suggestions p) = 200"
| "statusOf (Error500 m d) = 500"

subsection \<open>Notions used in the statements\<close>

text \<open>The clause that an active filter contributes, one per dimension: none when the
  selection is empty.\<close>

definition authorFilter :: "'n activeFilters \<Rightarrow> 'n termsFilter list" where
  "authorFilter af = (if authors af = [] then [] else [TermsStr ''author.keyword'' (authors af)])"

definition genreFilter :: "'n activeFilters \<Rightarrow> 'n termsFilter list" where
  "genreFilter af = (if genres af = [] then [] else [TermsStr ''genre'' (genres af)])"

definition yearFilter :: "'n activeFilters \<Rightarrow> 'n termsFilter list" where
  "yearFilter af = (if years af = [] then [] else [TermsNum ''releaseYear'' (years af)])"

text \<open>A term is a case-insensitive substring of a value when, both lowered, the value
  is some text, the term, and some text.\<close>

definition caseInsensitiveSubstring :: "lowering \<Rightarrow> jsstring \<Rightarrow> jsstring \<Rightarrow> bool" where
  "caseInsensitiveSubstring lower term v =
     (\<exists>before after. lower v = before @ lower term @ after)"

text \<open>
  What the statements on lowered text ask of the platform's \<open>toLowerCase\<close>: lowered
  text is lowercase, that is, lowering leaves every part of a lowered string as it is.
  (The lower case of a letter has no other lower case, and the one rule of
  \<open>toLowerCase\<close> that looks at the context, for the final sigma, applies to a capital
  letter only.)
\<close>

definition lowerStable :: "lowering \<Rightarrow> bool" where
  "lowerStable lower =
     (\<forall>s before part after. lower s = before @ part @ after \<longrightarrow> lower part = part)"

text \<open>The years query is the one that aggregates under the name \<open>years\<close>.\<close>

definition isYearsQuery :: "'n searchRequest \<Rightarrow> bool" where
  "isYearsQuery r = (map_option aggName (aggs r) = Some ''years'')"

text \<open>
  The maximal runs of code units of one class. The whole words of a string are its
  maximal runs of word characters; the terms of a string are its maximal runs of code
  units that are not white space.
\<close>

function runsOf :: "(jschar \<Rightarrow> bool) \<Rightarrow> jsstring \<Rightarrow> jsstring list" where
  "runsOf P [] = []"
| "runsOf P (c # cs) =
     (if P c then (c # takeWhile P cs) # runsOf P (dropWhile P cs) else runsOf P cs)"
  by pat_completeness auto
termination
  by (relation "measure (\<lambda>(P, s). length s)")
     (auto simp: length_dropWhile_le intro: le_imp_less_Suc)

definition wordsOf :: "jsstring \<Rightarrow> jsstring list" where
  "wordsOf s = runsOf isWordChar s"

text \<open>A string with its whole words of a given kind removed.\<close>

function removeWords :: "(jsstring \<Rightarrow> bool) \<Rightarrow> jsstring \<Rightarrow> jsstring" where
  "removeWords R [] = []"
| "removeWords R (c # cs) =
     (if isWordChar c
      then (if R (c # takeWhile isWordChar cs) then [] else c # takeWhile isWordChar cs)
           @ removeWords R (dropWhile isWordChar cs)
      else c # removeWords R cs)"
  by pat_completeness auto
termination
  by (relation "measure (\<lambda>(R, s). length s)")
     (auto simp: length_dropWhile_le intro: le_imp_less_Suc)

text \<open>A year word: "19" or "20" followed by at most two digits.\<close>

definition isYearWord :: "jsstring \<Rightarrow> bool" where
  "isYearWord w =
     ((startsWith w (js ''19'') \<or> startsWith w (js ''20''))
      \<and> length w \<le> 4 \<and> list_all isDigit (drop 2 w))"

text \<open>The substrings extracted from a query: the matches, none when \<open>match\<close> gives
  \<open>null\<close>.\<close>

definition extractedYears :: "jsstring \<Rightarrow> jsstring list" where
  "extractedYears q = (case yearPattern q of None \<Rightarrow> [] | Some ms \<Rightarrow> ms)"

subsection \<open>A sample catalogue\<close>

text \<open>An engine that answers the authors query with two
  buckets, the titles query with one hit, the genres query with no bucket and the years
  query with three buckets, and an engine that fails on the titles query only. The text
  of the catalogue and of the sample queries is Basic Latin, on which the platform's
  \<open>toLowerCase\<close> is the function \<open>toLowerCase\<close> above: the sample runs take it for
  \<open>lower\<close>.\<close>

definition sampleEngine :: "int engine" where
  "sampleEngine r =
     (if map_option aggName (aggs r) = Some ''authors'' then
        Inr (Bare \<lparr> hits = None, aggregations = [''authors'' \<mapsto>
          [\<lparr> key = KStr (js ''Daniel Hurst''), doc_count = 2 \<rparr>,
           \<lparr> key = KStr (js ''Dan Brown''), doc_count = 4 \<rparr>]] \<rparr>)
      else if map_option aggName (aggs r) = Some ''genres'' then
        Inr (Wrapped \<lparr> hits = None, aggregations = [''genres'' \<mapsto> []] \<rparr>)
      else if map_option aggName (aggs r) = Some ''years'' then
        Inr (Bare \<lparr> hits = None, aggregations = [''years'' \<mapsto>
          [\<lparr> key = KNum 2024, doc_count = 5 \<rparr>, \<lparr> key = KNum 2017, doc_count = 6 \<rparr>,
           \<lparr> key = KNum 1202, doc_count = 3 \<rparr>]] \<rparr>)
      else
        Inr (Bare \<lparr> hits = Some [\<lparr> hitId = js ''b3'', hitTitle = js ''Den yttersta hemligheten'',
                     hitAuthor = js ''Dan Brown'', hitReleaseYear = 2017, hitRating = 18 / 5 \<rparr>],
                   aggregations = Map.empty \<rparr>))"

definition indexMissing :: jsError where
  "indexMissing = JsError (js ''ResponseError'') (js ''index_not_found_exception'') None"

definition failingEngine :: "int engine" where
  "failingEngine r = (if aggs r = None then Inl indexMissing else sampleEngine r)"

definition sampleFilters :: "int activeFilters" where
  "sampleFilters = \<lparr> authors = [js ''Dan Brown''], genres = [], years = [2017] \<rparr>"

text \<open>The full answer of the handler to the query "Dan 20" on the sample engine.\<close>

definition samplePayload :: "int suggestions" where
  "samplePayload =
     \<lparr> query = js ''Dan 20'', resTextQuery = js ''Dan'', resYearPattern = Some [js ''20''],
       resAuthors = [\<lparr> sugValue = KStr (js ''Daniel Hurst''), sugCount = 2, matchedTerms = [js ''dan''] \<rparr>,
                     \<lparr> sugValue = KStr (js ''Dan Brown''), sugCount = 4, matchedTerms = [js ''dan''] \<rparr>],
       resTitles = [\<lparr> titleId = js ''b3'', titleValue = js ''Den yttersta hemligheten'',
                      titleAuthor = js ''Dan Brown'', titleYear = 2017, titleRating = 18 / 5,
                      titleMatchedTerms = [] \<rparr>],
       resGenres = [],
       resYears = [\<lparr> yearValue = KNum 2024, yearCount = 5 \<rparr>, \<lparr> yearValue = KNum 2017, yearCount = 6 \<rparr>],
       resActiveFilters = sampleFilters \<rparr>"


section \<open>Properties of the resolver\<close>

subsection \<open>Sets, lower case and the family loop\<close>

lemma setAdd_set: "set (setAdd acc x) = insert x (set acc)"
  by (auto simp: setAdd_def)

lemma foldl_setAdd_set: "set (foldl setAdd acc xs) = set acc \<union> set xs"
  by (induction xs arbitrary: acc) (auto simp: setAdd_set)

lemma foldl_setAdd_distinct: "distinct acc \<Longrightarrow> distinct (foldl setAdd acc xs)"
  by (induction xs arbitrary: acc) (auto simp: setAdd_def)

lemma set_newSet: "set (newSet xs) = set xs"
  by (simp add: newSet_def foldl_setAdd_set)

lemma distinct_newSet: "distinct (newSet xs)"
  by (simp add: newSet_def foldl_setAdd_distinct)

lemma lowerUnit_fixed: "u \<in> set (lowerUnit c) \<Longrightarrow> lowerUnit u = [u]"
  by (auto simp: lowerUnit_def split: if_splits)

lemma toLowerCase_fixed: "(\<And>u. u \<in> set s \<Longrightarrow> lowerUnit u = [u]) \<Longrightarrow> toLowerCase s = s"
  by (induction s) (auto simp: toLowerCase_def)

lemma set_toLowerCase: "u \<in> set (toLowerCase s) \<Longrightarrow> lowerUnit u = [u]"
  by (auto simp: toLowerCase_def lowerUnit_fixed)

lemma toLowerCase_idem: "toLowerCase (toLowerCase s) = toLowerCase s"
  by (rule toLowerCase_fixed) (rule set_toLowerCase)

lemma cacheFamily_lookup:
  "cacheFamily F ns c k =
     (case c k of Some v \<Rightarrow> Some v
      | None \<Rightarrow> if k \<in> set ns then Some (filter (\<lambda>v. v \<noteq> k) F) else None)"
  by (induction ns arbitrary: c) (auto split: option.splits)

lemmas js_eval = js_def normalize_def trim_def toLowerCase_def lowerUnit_def isWhiteSpace_def
  toUpperCase_def upperUnit_def capitalize_def buildRequest_def

subsection \<open>The three ways through \<open>getNameVariants\<close>\<close>

lemma getNameVariants_hit:
  "cache st (normalize N) = Some l \<Longrightarrow> getNameVariants ep st N = (Inr l, st)"
  by (simp add: getNameVariants_def)

lemma getNameVariants_fail:
  "cache st (normalize N) = None \<Longrightarrow>
   lookupFails (ep (length (requests st)) (buildRequest (normalize N))) \<Longrightarrow>
   getNameVariants ep st N =
     (Inr [], st\<lparr>requests := requests st @ [buildRequest (normalize N)],
                 cache := (cache st)(normalize N \<mapsto> [])\<rparr>)"
  by (auto simp: getNameVariants_def tryLookup_def lookupFails_def Let_def split: outcome.splits)

lemma getNameVariants_ok:
  "cache st (normalize N) = None \<Longrightarrow>
   ep (length (requests st)) (buildRequest (normalize N)) = Bindings bs \<Longrightarrow>
   getNameVariants ep st N =
     (Inr (filter (\<lambda>v. v \<noteq> normalize N) (nameFamilyOf (normalize N) bs)),
      st\<lparr>requests := requests st @ [buildRequest (normalize N)],
         cache := cacheFamily (nameFamilyOf (normalize N) bs)
                    (nameFamilyOf (normalize N) bs) (cache st)\<rparr>)"
  by (auto simp: getNameVariants_def tryLookup_def Let_def)

lemma getNameVariants_returns: "\<exists>l. fst (getNameVariants ep st N) = Inr l"
  by (auto simp: getNameVariants_def tryLookup_def Let_def split: option.splits outcome.splits)

lemma getNameVariants_keeps:
  "cache st k = Some v \<Longrightarrow> cache (snd (getNameVariants ep st N)) k = Some v"
  by (auto simp: getNameVariants_def tryLookup_def Let_def cacheFamily_lookup
           split: option.splits outcome.splits)

lemma runLookups_keeps:
  "cache st k = Some v \<Longrightarrow> cache (runLookups ep st ns) k = Some v"
  by (induction ns arbitrary: st) (auto simp: getNameVariants_keeps)

lemma getNameVariants_caches_result:
  "getNameVariants ep st N = (r, st') \<Longrightarrow> \<exists>l. r = Inr l \<and> cache st' (normalize N) = Some l"
  by (auto simp: getNameVariants_def tryLookup_def Let_def cacheFamily_lookup set_newSet
           nameFamilyOf_def
           split: option.splits outcome.splits)

subsection \<open>Error absorption and negative caching\<close>

text \<open>
  Claim C7. \<open>getNameVariants\<close> never throws to its caller. On a cache miss where the
  lookup fails (the fetch rejects, by its 5000 ms abort timer or otherwise, the response
  is not ok, or reading the body throws), the call returns the empty list and stores the
  empty list under the normalised name; the next call with the same name returns the
  empty list from the cache and leaves the state, request log included, as it is.
\<close>

theorem getNameVariants_absorbs_errors:
  "(\<forall>e. fst (getNameVariants ep st N) \<noteq> Inl e) \<and>
   (cache st (normalize N) = None \<and>
    lookupFails (ep (length (requests st)) (buildRequest (normalize N))) \<longrightarrow>
      abortAfterMs (buildRequest (normalize N)) = 5000 \<and>
      fst (getNameVariants ep st N) = Inr [] \<and>
      cache (snd (getNameVariants ep st N)) = (cache st)(normalize N \<mapsto> []) \<and>
      getNameVariants ep (snd (getNameVariants ep st N)) N
        = (Inr [], snd (getNameVariants ep st N)))"
proof (intro conjI impI allI)
  fix e
  from getNameVariants_returns [of ep st N] show "fst (getNameVariants ep st N) \<noteq> Inl e"
    by auto
next
  assume h: "cache st (normalize N) = None \<and>
    lookupFails (ep (length (requests st)) (buildRequest (normalize N)))"
  then have eq: "getNameVariants ep st N =
     (Inr [], st\<lparr>requests := requests st @ [buildRequest (normalize N)],
                 cache := (cache st)(normalize N \<mapsto> [])\<rparr>)"
    by (simp add: getNameVariants_fail)
  show "abortAfterMs (buildRequest (normalize N)) = 5000" by (simp add: buildRequest_def)
  show "fst (getNameVariants ep st N) = Inr []" by (simp add: eq)
  show "cache (snd (getNameVariants ep st N)) = (cache st)(normalize N \<mapsto> [])" by (simp add: eq)
  show "getNameVariants ep (snd (getNameVariants ep st N)) N
        = (Inr [], snd (getNameVariants ep st N))"
    by (simp add: eq getNameVariants_hit)
qed

theorem getNameVariants_absorbs_errors_witness:
  "fst (getNameVariants timesOutThenAnswers emptyResolver (js ''Kristoffer'')) = Inr []
   \<and> cache (snd (getNameVariants timesOutThenAnswers emptyResolver (js ''Kristoffer'')))
        (js ''kristoffer'') = Some []
   \<and> getNameVariants timesOutThenAnswers
        (snd (getNameVariants timesOutThenAnswers emptyResolver (js ''Kristoffer''))) (js ''Kristoffer'')
     = (Inr [], snd (getNameVariants timesOutThenAnswers emptyResolver (js ''Kristoffer'')))"
proof -
  have n: "normalize (js ''Kristoffer'') = js ''kristoffer''"
    by (simp add: js_eval)
  have h: "cache emptyResolver (normalize (js ''Kristoffer'')) = None \<and>
    lookupFails (timesOutThenAnswers (length (requests emptyResolver))
       (buildRequest (normalize (js ''Kristoffer''))))"
    by (simp add: emptyResolver_def timesOutThenAnswers_def lookupFails_def)
  show ?thesis
    using getNameVariants_absorbs_errors [of timesOutThenAnswers emptyResolver "js ''Kristoffer''"] h
    by (simp add: n)
qed

subsection \<open>What the filters let through\<close>

lemma extractVariants_props:
  "v \<in> set (extractVariants bs) \<Longrightarrow>
     toLowerCase v = v \<and> isLatinName v \<and> 2 \<le> length v \<and> length v \<le> 20"
  by (auto simp: extractVariants_def set_newSet lowerLabels_def toLowerCase_idem)

lemma distinct_extractVariants: "distinct (extractVariants bs)"
  by (simp add: extractVariants_def distinct_newSet)

text \<open>
  Claim C8. The claim says that a derived variant holds only Latin-script letters,
  spaces, hyphens and apostrophes. The range of \<open>isLatinName\<close> from U+00C0 to U+00FF
  also holds the multiplication sign U+00D7 (and the division sign U+00F7): the label
  "A\<times>B" passes every filter and becomes a variant.
\<close>

theorem isLatinName_accepts_multiplication_sign:
  "isLatinName [97, 215, 98] \<and>
   extractVariants [Some [65, 215, 66]] = [97, 215, 98] # []"
  by (simp add: extractVariants_def lowerLabels_def List.map_filter_def newSet_def setAdd_def
        isLatinName_def isLatinChar_def js_eval)

subsection \<open>The cache is insert-only\<close>

text \<open>
  Claim C10. Through any sequence of calls made one after the other, an entry of the
  cache, however it got there, stays as it is; and once a call with a name has returned,
  every later call with that name returns the same result and leaves the state, request
  log included, as it finds it.
\<close>

theorem cache_insert_only:
  "(cache st k = Some v \<longrightarrow> cache (runLookups ep st ns) k = Some v) \<and>
   (getNameVariants ep st N = (r, st1) \<longrightarrow>
      getNameVariants ep (runLookups ep st1 ns) N = (r, runLookups ep st1 ns))"
proof (intro conjI impI)
  assume "cache st k = Some v"
  then show "cache (runLookups ep st ns) k = Some v" by (rule runLookups_keeps)
next
  assume "getNameVariants ep st N = (r, st1)"
  then obtain l where l: "r = Inr l" "cache st1 (normalize N) = Some l"
    using getNameVariants_caches_result by blast
  then have "cache (runLookups ep st1 ns) (normalize N) = Some l"
    by (simp add: runLookups_keeps)
  then show "getNameVariants ep (runLookups ep st1 ns) N = (r, runLookups ep st1 ns)"
    using l by (simp add: getNameVariants_hit)
qed

lemma norm_kristoffer: "normalize (js ''kristoffer'') = js ''kristoffer''"
  by (simp add: js_eval)

lemma norm_christopher: "normalize (js ''christopher'') = js ''christopher''"
  by (simp add: js_eval)

lemma afterTimeout_eq:
  "afterTimeout = \<lparr> cache = [js ''kristoffer'' \<mapsto> []],
                    requests = [buildRequest (js ''kristoffer'')] \<rparr>"
  by (simp add: afterTimeout_def getNameVariants_def tryLookup_def norm_kristoffer
        emptyResolver_def timesOutThenAnswers_def Let_def)

lemma js_neq: "js ''christopher'' \<noteq> js ''kristoffer''"
  by (simp add: js_def)

lemma variants_Kristoffer: "extractVariants [Some (js ''Kristoffer'')] = [js ''kristoffer'']"
  by (simp add: extractVariants_def lowerLabels_def List.map_filter_def newSet_def setAdd_def
        isLatinName_def isLatinChar_def js_eval)

lemma family_christopher:
  "nameFamilyOf (js ''christopher'') [Some (js ''Kristoffer'')]
     = [js ''christopher'', js ''kristoffer'']"
  using js_neq by (simp add: nameFamilyOf_def variants_Kristoffer newSet_def setAdd_def)

lemma second_call:
  "getNameVariants timesOutThenAnswers afterTimeout (js ''christopher'')
    = (Inr [js ''kristoffer''],
       \<lparr> cache = [js ''kristoffer'' \<mapsto> [], js ''christopher'' \<mapsto> [js ''kristoffer'']],
         requests = [buildRequest (js ''kristoffer''), buildRequest (js ''christopher'')] \<rparr>)"
  using js_neq
  by (simp add: getNameVariants_def tryLookup_def norm_christopher afterTimeout_eq
        timesOutThenAnswers_def family_christopher Let_def)

theorem cache_insert_only_witness:
  "cache (runLookups timesOutThenAnswers afterTimeout [js ''christopher'']) (js ''kristoffer'')
     = Some []
   \<and> getNameVariants timesOutThenAnswers
        (runLookups timesOutThenAnswers afterTimeout [js ''christopher'']) (js ''kristoffer'')
      = (Inr [], runLookups timesOutThenAnswers afterTimeout [js ''christopher''])"
proof -
  have a: "cache afterTimeout (js ''kristoffer'') = Some []"
    by (simp add: afterTimeout_eq)
  have "getNameVariants timesOutThenAnswers emptyResolver (js ''kristoffer'')
          = (Inr [], afterTimeout)"
    by (simp add: afterTimeout_def getNameVariants_def tryLookup_def norm_kristoffer
        emptyResolver_def timesOutThenAnswers_def Let_def)
  moreover have "getNameVariants timesOutThenAnswers afterTimeout (js ''kristoffer'')
          = (Inr [], afterTimeout)"
    using a by (simp add: getNameVariants_hit norm_kristoffer)
  ultimately show ?thesis
    using a cache_insert_only [of afterTimeout "js ''kristoffer''" "[]"
        timesOutThenAnswers "[js ''christopher'']" "js ''kristoffer''" "Inr []" afterTimeout]
    by simp
qed

subsection \<open>Family closure\<close>

text \<open>
  Claim C1, as stated, fails. After a timed-out lookup of "kristoffer" has cached the
  empty list for it, a successful lookup of "christopher" returns ["kristoffer"] and
  the family is ["christopher", "kristoffer"]; the loop skips the name the cache already
  holds, so the entry of "kristoffer" is still the empty list, not the family minus
  itself, and the next lookup of "kristoffer" returns the empty list, without
  "christopher".
\<close>

theorem family_closure_counterexample:
  "cache afterTimeout (normalize (js ''christopher'')) = None
   \<and> timesOutThenAnswers (length (requests afterTimeout))
        (buildRequest (normalize (js ''christopher''))) = Bindings [Some (js ''Kristoffer'')]
   \<and> fst (getNameVariants timesOutThenAnswers afterTimeout (js ''christopher''))
        = Inr [js ''kristoffer'']
   \<and> nameFamilyOf (normalize (js ''christopher'')) [Some (js ''Kristoffer'')]
        = [js ''christopher'', js ''kristoffer'']
   \<and> cache (snd (getNameVariants timesOutThenAnswers afterTimeout (js ''christopher'')))
        (js ''kristoffer'') = Some []
   \<and> fst (getNameVariants timesOutThenAnswers
        (snd (getNameVariants timesOutThenAnswers afterTimeout (js ''christopher'')))
        (js ''kristoffer'')) = Inr []"
  using js_neq
  by (simp add: second_call norm_christopher family_christopher getNameVariants_hit
        norm_kristoffer)
    (simp add: afterTimeout_eq timesOutThenAnswers_def)

text \<open>
  Claim C1, amended. Let a call \<open>getNameVariants(N)\<close> miss the cache and get an ok
  response with bindings. It returns the family (the normalised \<open>N\<close> followed by the
  filtered variants) without the normalised \<open>N\<close>. Afterwards the cache holds an entry
  for every member of the family: a member the cache did not hold before the call has
  the family minus itself, a member it held keeps its list. For every returned \<open>M\<close>
  that the cache did not hold before the call and that trimming leaves as it is, the
  next \<open>getNameVariants(M)\<close> returns the family minus \<open>M\<close>, which holds the normalised
  \<open>N\<close>, from the cache: the state, request log included, is unchanged.
\<close>

theorem family_closure:
  assumes miss: "cache st (normalize N) = None"
    and ok: "ep (length (requests st)) (buildRequest (normalize N)) = Bindings bs"
    and call: "getNameVariants ep st N = (r, st')"
  shows "r = Inr (filter (\<lambda>v. v \<noteq> normalize N) (nameFamilyOf (normalize N) bs)) \<and>
     (\<forall>m \<in> set (nameFamilyOf (normalize N) bs).
         cache st' m = (case cache st m of Some old \<Rightarrow> Some old
                        | None \<Rightarrow> Some (filter (\<lambda>v. v \<noteq> m) (nameFamilyOf (normalize N) bs)))) \<and>
     (\<forall>M \<in> set (filter (\<lambda>v. v \<noteq> normalize N) (nameFamilyOf (normalize N) bs)).
         cache st M = None \<and> trim M = M \<longrightarrow>
           getNameVariants ep' st' M
             = (Inr (filter (\<lambda>v. v \<noteq> M) (nameFamilyOf (normalize N) bs)), st')
           \<and> normalize N \<in> set (filter (\<lambda>v. v \<noteq> M) (nameFamilyOf (normalize N) bs)))"
proof -
  let ?n = "normalize N"
  let ?F = "nameFamilyOf ?n bs"
  from getNameVariants_ok [of st N ep bs, OF miss ok] call
  have r: "r = Inr (filter (\<lambda>v. v \<noteq> ?n) ?F)"
    and st': "st' = st\<lparr>requests := requests st @ [buildRequest ?n],
                       cache := cacheFamily ?F ?F (cache st)\<rparr>"
    by simp_all
  have entries: "cache st' m = (case cache st m of Some old \<Rightarrow> Some old
                        | None \<Rightarrow> Some (filter (\<lambda>v. v \<noteq> m) ?F))" if "m \<in> set ?F" for m
    using that by (simp add: st' cacheFamily_lookup split: option.splits)
  have later: "getNameVariants ep' st' M = (Inr (filter (\<lambda>v. v \<noteq> M) ?F), st')
           \<and> ?n \<in> set (filter (\<lambda>v. v \<noteq> M) ?F)"
    if M: "M \<in> set (filter (\<lambda>v. v \<noteq> ?n) ?F)" and fresh: "cache st M = None \<and> trim M = M"
    for M
  proof -
    from M have mem: "M \<in> set ?F" and neq: "M \<noteq> ?n" by auto
    then have "M \<in> set (extractVariants bs)"
      by (auto simp: nameFamilyOf_def set_newSet)
    then have "toLowerCase M = M" by (simp add: extractVariants_props)
    with fresh have norm: "normalize M = M" by (simp add: normalize_def)
    from entries [OF mem] fresh have "cache st' M = Some (filter (\<lambda>v. v \<noteq> M) ?F)" by simp
    then have "getNameVariants ep' st' M = (Inr (filter (\<lambda>v. v \<noteq> M) ?F), st')"
      by (simp add: getNameVariants_hit norm)
    moreover have "?n \<in> set ?F" by (simp add: nameFamilyOf_def set_newSet)
    ultimately show ?thesis using neq by auto
  qed
  show ?thesis using r entries later by blast
qed

lemma norm_Christopher: "normalize (js ''Christopher'') = js ''christopher''"
  by (simp add: js_eval)

lemma trim_kristoffer: "trim (js ''kristoffer'') = js ''kristoffer''"
  by (simp add: js_eval)

lemma variants_wikidata:
  "extractVariants [Some (js ''Kristoffer''), None, Some (js ''Christoph''), Some [1050, 1088],
               Some (js ''kristoffer''), Some (js ''C'')] = [js ''kristoffer'', js ''christoph'']"
  by (simp add: extractVariants_def lowerLabels_def List.map_filter_def newSet_def setAdd_def
        isLatinName_def isLatinChar_def js_eval)

lemma family_wikidata:
  "nameFamilyOf (js ''christopher'') [Some (js ''Kristoffer''), None, Some (js ''Christoph''),
      Some [1050, 1088], Some (js ''kristoffer''), Some (js ''C'')]
     = [js ''christopher'', js ''kristoffer'', js ''christoph'']"
  by (simp add: nameFamilyOf_def variants_wikidata newSet_def setAdd_def) (simp add: js_def)

theorem family_closure_witness:
  "fst (getNameVariants wikidataAnswers emptyResolver (js ''Christopher''))
     = Inr [js ''kristoffer'', js ''christoph'']
   \<and> getNameVariants timesOutThenAnswers
        (snd (getNameVariants wikidataAnswers emptyResolver (js ''Christopher''))) (js ''kristoffer'')
     = (Inr [js ''christopher'', js ''christoph''],
        snd (getNameVariants wikidataAnswers emptyResolver (js ''Christopher'')))"
proof -
  have neq: "js ''kristoffer'' \<noteq> js ''christopher''" "js ''christoph'' \<noteq> js ''christopher''"
    "js ''christoph'' \<noteq> js ''kristoffer''"
    by (simp_all add: js_def)
  have miss: "cache emptyResolver (normalize (js ''Christopher'')) = None"
    by (simp add: emptyResolver_def)
  have ok: "wikidataAnswers (length (requests emptyResolver))
      (buildRequest (normalize (js ''Christopher'')))
      = Bindings [Some (js ''Kristoffer''), None, Some (js ''Christoph''), Some [1050, 1088],
               Some (js ''kristoffer''), Some (js ''C'')]"
    by (simp add: wikidataAnswers_def)
  have call: "getNameVariants wikidataAnswers emptyResolver (js ''Christopher'')
      = (fst (getNameVariants wikidataAnswers emptyResolver (js ''Christopher'')),
         snd (getNameVariants wikidataAnswers emptyResolver (js ''Christopher'')))"
    by simp
  have fresh: "cache emptyResolver (js ''kristoffer'') = None
      \<and> trim (js ''kristoffer'') = js ''kristoffer''"
    by (simp add: emptyResolver_def trim_kristoffer)
  show ?thesis
    using family_closure [where ep = wikidataAnswers and ep' = timesOutThenAnswers,
        OF miss ok call] fresh neq
    by (simp add: norm_Christopher family_wikidata)
qed

text \<open>
  The condition on trimming is needed: a label that starts with a space is stored under
  a key that starts with a space, the lookup of that variant trims its argument, misses
  the cache and sends a second request.
\<close>

lemma norm_padded: "normalize (js '' kristoffer'') = js ''kristoffer''"
  by (simp add: js_eval)

lemma variants_padded: "extractVariants [Some (js '' Kristoffer'')] = [js '' kristoffer'']"
  by (simp add: extractVariants_def lowerLabels_def List.map_filter_def newSet_def setAdd_def
        isLatinName_def isLatinChar_def js_eval)

lemma padded_variant_misses_cache:
  "fst (getNameVariants paddedAnswer emptyResolver (js ''christopher'')) = Inr [js '' kristoffer'']
   \<and> length (requests (snd (getNameVariants paddedAnswer emptyResolver (js ''christopher'')))) = 1
   \<and> length (requests (snd (getNameVariants paddedAnswer
        (snd (getNameVariants paddedAnswer emptyResolver (js ''christopher'')))
        (js '' kristoffer'')))) = 2"
proof -
  have neq: "js '' kristoffer'' \<noteq> js ''christopher''" "js ''kristoffer'' \<noteq> js ''christopher''"
    "js ''kristoffer'' \<noteq> js '' kristoffer''"
    by (simp_all add: js_def)
  have fam: "nameFamilyOf (js ''christopher'') [Some (js '' Kristoffer'')]
      = [js ''christopher'', js '' kristoffer'']"
    using neq by (simp add: nameFamilyOf_def variants_padded newSet_def setAdd_def)
  have first: "getNameVariants paddedAnswer emptyResolver (js ''christopher'')
      = (Inr [js '' kristoffer''],
         \<lparr> cache = [js ''christopher'' \<mapsto> [js '' kristoffer''],
                     js '' kristoffer'' \<mapsto> [js ''christopher'']],
           requests = [buildRequest (js ''christopher'')] \<rparr>)"
    using neq
    by (simp add: getNameVariants_def tryLookup_def norm_christopher emptyResolver_def
          paddedAnswer_def fam Let_def)
  show ?thesis
    unfolding first using neq
    by (simp add: getNameVariants_def tryLookup_def norm_padded paddedAnswer_def Let_def)
qed

section \<open>Properties of the suggest endpoint\<close>

subsection \<open>Queries that trim to less than two code units\<close>

lemma isWhiteSpace_not_digit: "isWhiteSpace c \<Longrightarrow> c \<noteq> 49 \<and> c \<noteq> 50 \<and> c \<noteq> 57 \<and> c \<noteq> 48"
  by (auto simp: isWhiteSpace_def)

lemma js19: "js ''19'' = [49, 57]" and js20: "js ''20'' = [50, 48]"
  by (simp_all add: js_def)

lemma matchYear_head:
  "matchYear p s = Some n \<Longrightarrow> \<exists>a b r. s = a # b # r \<and> \<not> isWhiteSpace a \<and> \<not> isWhiteSpace b"
proof -
  assume m: "matchYear p s = Some n"
  then have "startsWith s (js ''19'') \<or> startsWith s (js ''20'')"
    by (auto simp: matchYear_def split: if_splits)
  then show ?thesis
    by (cases s; cases "tl s") (auto simp: js19 js20 dest: isWhiteSpace_not_digit)
qed

lemma matchYear_ws: "isWhiteSpace c \<Longrightarrow> matchYear p (c # cs) = None"
  using matchYear_head [of p "c # cs"] by (cases "matchYear p (c # cs)") auto

lemma matchYear_single: "matchYear p [c] = None"
  using matchYear_head [of p "[c]"] by (cases "matchYear p [c]") auto

lemma matchYear_second_ws: "isWhiteSpace d \<Longrightarrow> matchYear p (c # d # cs) = None"
  using matchYear_head [of p "c # d # cs"] by (cases "matchYear p (c # d # cs)") auto

lemma scan_ws: "list_all isWhiteSpace w \<Longrightarrow> scanYears p w = map Kept w"
  by (induction w arbitrary: p) (auto simp: matchYear_ws)

lemma scan_ws_one:
  "list_all isWhiteSpace w \<Longrightarrow> list_all isWhiteSpace w2 \<Longrightarrow>
   scanYears p (w @ t # w2) = map Kept (w @ t # w2)"
proof (induction w arbitrary: p)
  case Nil
  then show ?case
    by (cases w2) (auto simp: matchYear_single matchYear_second_ws matchYear_ws scan_ws)
next
  case (Cons a w)
  then show ?case by (auto simp: matchYear_ws)
qed

lemma keptOf_Kept: "keptOf (map Kept s) = s"
  by (induction s) auto

lemma matchedOf_Kept: "matchedOf (map Kept s) = []"
  by (induction s) auto

lemma trim_decomp:
  "\<exists>w1 w2. q = w1 @ trim q @ w2 \<and> list_all isWhiteSpace w1 \<and> list_all isWhiteSpace w2"
proof -
  let ?q' = "dropWhile isWhiteSpace q"
  have a: "q = takeWhile isWhiteSpace q @ ?q'" by simp
  have b: "?q' = trim q @ rev (takeWhile isWhiteSpace (rev ?q'))"
    unfolding trim_def
    by (metis rev_append rev_rev_ident takeWhile_dropWhile_id)
  have c: "list_all isWhiteSpace (takeWhile isWhiteSpace q)"
    by (simp add: list_all_iff) (meson set_takeWhileD)
  have d: "list_all isWhiteSpace (rev (takeWhile isWhiteSpace (rev ?q')))"
    by (simp add: list_all_iff) (meson set_takeWhileD)
  from a b have "q = takeWhile isWhiteSpace q @ trim q @ rev (takeWhile isWhiteSpace (rev ?q'))"
    by simp
  with c d show ?thesis by blast
qed

lemma short_scan: "length (trim q) < 2 \<Longrightarrow> scanYears p q = map Kept q"
proof -
  assume short: "length (trim q) < 2"
  obtain w1 w2 where q: "q = w1 @ trim q @ w2" and w: "list_all isWhiteSpace w1" "list_all isWhiteSpace w2"
    using trim_decomp by blast
  show ?thesis
  proof (cases "trim q")
    case Nil
    with q w have "list_all isWhiteSpace q" by (metis append_Nil list_all_append)
    then show ?thesis by (rule scan_ws)
  next
    case (Cons t ts)
    with short have ts: "ts = []" by simp
    with q Cons have "q = w1 @ t # w2" by simp
    then show ?thesis using scan_ws_one [OF w, of p t] by simp
  qed
qed

lemma length_trim_le: "length (trim q) \<le> length q"
proof -
  obtain w1 w2 where "q = w1 @ trim q @ w2" using trim_decomp by blast
  then have "length q = length w1 + length (trim q) + length w2"
    by (metis length_append add.assoc)
  then show ?thesis by simp
qed

lemma short_yearPattern: "length (trim q) < 2 \<Longrightarrow> yearPattern q = None"
  by (simp add: yearPattern_def short_scan matchedOf_Kept)

lemma short_textQuery: "length (trim q) < 2 \<Longrightarrow> textQuery q = trim q"
  by (simp add: textQuery_def short_scan keptOf_Kept)

lemma short_fanOut:
  "length (trim q) < 2 \<Longrightarrow>
   fanOut lower hp q af = [Inr (noBuckets ''authors''), Inr noHits, Inr (noBuckets ''genres''),
                     Inr (noBuckets ''years'')]"
  by (simp add: fanOut_def short_yearPattern short_textQuery)

subsection \<open>\<open>Promise.all\<close>\<close>

lemma firstRejection_mem: "firstRejection xs rs = Some e \<Longrightarrow> Inl e \<in> set rs"
  by (induction xs) (auto split: if_splits sum.splits simp: in_set_conv_nth)

lemma firstRejection_append:
  "firstRejection (xs @ ys) rs =
     (case firstRejection xs rs of Some e \<Rightarrow> Some e | None \<Rightarrow> firstRejection ys rs)"
  by (induction xs) (auto split: sum.splits)

lemma firstRejection_upt:
  "n \<le> length rs \<Longrightarrow> firstRejection [0..<n] rs = None \<Longrightarrow> i < n \<Longrightarrow> \<not> isl (rs ! i)"
proof (induction n)
  case 0
  then show ?case by simp
next
  case (Suc n)
  from Suc.prems have a: "firstRejection [0..<n] rs = None"
    by (auto simp: firstRejection_append split: option.splits)
  from Suc.prems a have b: "\<not> isl (rs ! n)"
    by (auto simp: firstRejection_append split: option.splits sum.splits)
  show ?case
  proof (cases "i = n")
    case True
    with b show ?thesis by simp
  next
    case False
    with Suc.prems have "i < n" by simp
    with Suc.IH a Suc.prems show ?thesis by simp
  qed
qed

lemma resolved_all: "\<forall>r \<in> set rs. \<not> isl r \<Longrightarrow> map Inr (resolved rs) = rs"
  by (induction rs rule: resolved.induct) auto

lemma promiseAll_Inr: "promiseAll order rs = Inr vs \<Longrightarrow> rs = map Inr vs"
proof -
  assume p: "promiseAll order rs = Inr vs"
  then have none: "firstRejection (order @ [0..<length rs]) rs = None" and vs: "vs = resolved rs"
    by (auto simp: promiseAll_def split: option.splits)
  from none have "firstRejection [0..<length rs] rs = None"
    by (auto simp: firstRejection_append split: option.splits)
  then have "\<forall>i < length rs. \<not> isl (rs ! i)"
    using firstRejection_upt [of "length rs" rs] by simp
  then have "\<forall>r \<in> set rs. \<not> isl r" by (auto simp: in_set_conv_nth)
  then show ?thesis using vs by (simp add: resolved_all)
qed

lemma promiseAll_Inl: "promiseAll order rs = Inl e \<Longrightarrow> Inl e \<in> set rs"
  by (auto simp: promiseAll_def split: option.splits dest: firstRejection_mem)

lemma resolved_map_Inr: "resolved (map Inr vs) = vs"
  by (induction vs) auto

lemma promiseAll_all_Inr: "promiseAll order (map Inr vs) = Inr vs"
proof (cases "promiseAll order (map Inr vs)")
  case (Inl e)
  then have "Inl e \<in> set (map Inr vs)" by (rule promiseAll_Inl)
  then show ?thesis by auto
next
  case (Inr ws)
  from promiseAll_Inr [OF Inr] have "vs = ws" by (simp add: inj_map_eq_map)
  with Inr show ?thesis by simp
qed

subsection \<open>The short-query guard\<close>

lemma short_suggest:
  "length (trim q) < 2 \<Longrightarrow> 2 \<le> length q \<Longrightarrow>
   suggest lower hp es order (Some q) af =
     (Suggestions \<lparr> query = q, resTextQuery = trim q, resYearPattern = None,
                    resAuthors = [], resTitles = [], resGenres = [], resYears = [],
                    resActiveFilters = af \<rparr>, [])"
proof -
  assume short: "length (trim q) < 2" and long: "2 \<le> length q"
  have pa: "promiseAll order [Inr a, Inr b, Inr c, Inr d] = Inr [a, b, c, d]"
    for a b c d :: searchResult
    using promiseAll_all_Inr [of order "[a, b, c, d]"] by simp
  have br: "buildResponse lower q af (noBuckets ''authors'') noHits (noBuckets ''genres'') (noBuckets ''years'')
     = Inr \<lparr> query = q, resTextQuery = trim q, resYearPattern = None,
                    resAuthors = [], resTitles = [], resGenres = [], resYears = [],
                    resActiveFilters = af \<rparr>"
    by (simp add: buildResponse_def noBuckets_def noHits_def bucketsOf_def hitsOf_def
         short_yearPattern [OF short] short_textQuery [OF short])
  show ?thesis using long
    by (simp add: suggest_def Let_def short_fanOut [OF short] settle_def pa br)
qed

text \<open>
  Claim C2. When the query parameter is missing, or trims to less than two code units,
  the handler answers with status 200, the four lists are empty and no request goes to
  the search engine. (A query of two or more code units that trims to less than two
  passes the length test of the handler; it then finds no year and a text query too
  short for any of the four gates.)
\<close>

theorem short_query_guard:
  "(case qParam of None \<Rightarrow> True | Some q \<Rightarrow> length (trim q) < 2) \<Longrightarrow>
   statusOf (fst (suggest lower hp es order qParam af)) = 200 \<and>
   fourLists (fst (suggest lower hp es order qParam af)) = Some ([], [], [], []) \<and>
   snd (suggest lower hp es order qParam af) = []"
proof (cases qParam)
  case None
  then show ?thesis by (simp add: suggest_def)
next
  case (Some q)
  assume "case qParam of None \<Rightarrow> True | Some q \<Rightarrow> length (trim q) < 2"
  with Some have short: "length (trim q) < 2" by simp
  show ?thesis
  proof (cases "length q < 2")
    case True
    with Some show ?thesis by (simp add: suggest_def)
  next
    case False
    then have "2 \<le> length q" by simp
    from short_suggest [OF short this, of lower hp es order af] Some show ?thesis by simp
  qed
qed

theorem short_query_guard_witness:
  "statusOf (fst (suggest toLowerCase True (\<lambda>r. Inl notAFunction) [] (Some (js ''  d '')) \<lparr> authors = [js ''Dan Brown''], genres = [], years = [2020::int] \<rparr>)) = 200
   \<and> fourLists (fst (suggest toLowerCase True (\<lambda>r. Inl notAFunction) [] (Some (js ''  d '')) \<lparr> authors = [js ''Dan Brown''], genres = [], years = [2020::int] \<rparr>)) = Some ([], [], [], [])
   \<and> snd (suggest toLowerCase True (\<lambda>r. Inl notAFunction) [] (Some (js ''  d '')) \<lparr> authors = [js ''Dan Brown''], genres = [], years = [2020::int] \<rparr>) = []"
proof -
  have "case Some (js ''  d '') of None \<Rightarrow> True | Some q \<Rightarrow> length (trim q) < 2"
    by (simp add: js_eval)
  from short_query_guard [OF this] show ?thesis by blast
qed

subsection \<open>The requests issued and their filters\<close>

lemma issued_fanOut:
  "issued (fanOut lower hp q af)
     = (if 2 \<le> length (textQuery q)
        then [authorsRequest hp (textQuery q) af, titlesRequest hp (textQuery q) af,
              genresRequest (queryTerms lower q) af]
        else [])
       @ (case yearPattern q of Some yps \<Rightarrow> [yearsRequest yps af] | None \<Rightarrow> [])"
  by (simp add: fanOut_def split: option.splits)

lemma suggest_issued:
  "snd (suggest lower hp es order (Some q) af) = (if length q < 2 then [] else issued (fanOut lower hp q af))"
  by (simp add: suggest_def Let_def split: sum.splits)

lemma withoutField_build:
  "withoutField ''author.keyword'' (buildFilterClause af) = genreFilter af @ yearFilter af"
  "withoutField ''genre'' (buildFilterClause af) = authorFilter af @ yearFilter af"
  "withoutField ''releaseYear'' (buildFilterClause af) = authorFilter af @ genreFilter af"
  by (simp_all add: withoutField_def buildFilterClause_def authorFilter_def genreFilter_def
        yearFilter_def)

lemma buildFilterClause_all:
  "buildFilterClause af = authorFilter af @ genreFilter af @ yearFilter af"
  by (simp add: buildFilterClause_def authorFilter_def genreFilter_def yearFilter_def)

text \<open>
  Claim C4. The requests the handler issues are, in this order and each when its gate
  is open, the authors, titles and genres requests and the years request. The authors
  request carries the clauses of the active genre and year filters and none on the
  author; the genres request those of the active author and year filters and none on
  the genre; the years request those of the active author and genre filters and none on
  the year; the titles request those of all three active filters.
\<close>

theorem asymmetric_filtering:
  "snd (suggest lower hp es order (Some q) af)
     = (if length q < 2 then []
        else (if 2 \<le> length (textQuery q)
              then [authorsRequest hp (textQuery q) af, titlesRequest hp (textQuery q) af,
                    genresRequest (queryTerms lower q) af]
              else [])
             @ (case yearPattern q of Some yps \<Rightarrow> [yearsRequest yps af] | None \<Rightarrow> []))
   \<and> filterClauses (authorsRequest hp tq af) = genreFilter af @ yearFilter af
   \<and> filterClauses (titlesRequest hp tq af) = authorFilter af @ genreFilter af @ yearFilter af
   \<and> filterClauses (genresRequest terms af) = authorFilter af @ yearFilter af
   \<and> filterClauses (yearsRequest yps af) = authorFilter af @ genreFilter af"
  by (simp add: suggest_issued issued_fanOut withoutField_build
        authorsRequest_def titlesRequest_def genresRequest_def yearsRequest_def)
     (simp add: buildFilterClause_all)

subsection \<open>Match annotation\<close>

lemma startsWith_iff: "startsWith s t \<longleftrightarrow> (\<exists>post. s = t @ post)"
  by (induction s t rule: startsWith.induct) auto

lemma includesStr_iff: "includesStr s t \<longleftrightarrow> (\<exists>pre post. s = pre @ t @ post)"
proof (induction s)
  case Nil
  then show ?case by auto
next
  case (Cons c cs)
  show ?case
  proof
    assume "includesStr (c # cs) t"
    then consider "startsWith (c # cs) t" | "includesStr cs t" by auto
    then show "\<exists>pre post. c # cs = pre @ t @ post"
    proof cases
      case 1
      then obtain post where "c # cs = t @ post" by (auto simp: startsWith_iff)
      then have "c # cs = [] @ t @ post" by simp
      then show ?thesis by blast
    next
      case 2
      with Cons.IH obtain pre post where "cs = pre @ t @ post" by blast
      then have "c # cs = (c # pre) @ t @ post" by simp
      then show ?thesis by blast
    qed
  next
    assume "\<exists>pre post. c # cs = pre @ t @ post"
    then obtain pre post where eq: "c # cs = pre @ t @ post" by blast
    show "includesStr (c # cs) t"
    proof (cases pre)
      case Nil
      with eq have "startsWith (c # cs) t" by (auto simp: startsWith_iff)
      then show ?thesis by simp
    next
      case (Cons a pre')
      with eq have "cs = pre' @ t @ post" by simp
      with Cons.IH have "includesStr cs t" by blast
      then show ?thesis by simp
    qed
  qed
qed

lemma splitWhiteSpace_part:
  "f \<in> set (splitWhiteSpace cur s) \<Longrightarrow> \<exists>before after. cur @ s = before @ f @ after"
proof (induction cur s rule: splitWhiteSpace.induct)
  case (1 cur)
  then have "cur @ [] = [] @ f @ []" by simp
  then show ?case by blast
next
  case (2 cur c cs)
  show ?case
  proof (cases "isWhiteSpace c")
    case False
    with 2 obtain before after where "(cur @ [c]) @ cs = before @ f @ after" by auto
    then have "cur @ c # cs = before @ f @ after" by simp
    then show ?thesis by blast
  next
    case True
    with 2(3) consider "f = cur" | "f \<in> set (splitWhiteSpace [] (dropWhile isWhiteSpace cs))"
      by auto
    then show ?thesis
    proof cases
      case 1
      then have "cur @ c # cs = [] @ f @ (c # cs)" by simp
      then show ?thesis by blast
    next
      case 2
      with "2.IH"(1) [OF True] obtain before after
        where "[] @ dropWhile isWhiteSpace cs = before @ f @ after" by blast
      then have "cs = takeWhile isWhiteSpace cs @ before @ f @ after"
        by (metis append_Nil takeWhile_dropWhile_id)
      then have "cur @ c # cs = (cur @ c # takeWhile isWhiteSpace cs @ before) @ f @ after"
        by simp
      then show ?thesis by blast
    qed
  qed
qed

lemma queryTerms_lower:
  assumes "lowerStable lower" and "t \<in> set (queryTerms lower q)"
  shows "lower t = t"
proof -
  from assms(2) have "t \<in> set (splitWhiteSpace [] (lower (textQuery q)))"
    by (simp add: queryTerms_def)
  then obtain before after where "lower (textQuery q) = before @ t @ after"
    using splitWhiteSpace_part by fastforce
  with assms(1) show ?thesis unfolding lowerStable_def by blast
qed

lemma toLowerCase_stable: "lowerStable toLowerCase"
  unfolding lowerStable_def
proof (intro allI impI)
  fix s before part after
  assume eq: "toLowerCase s = before @ part @ after"
  show "toLowerCase part = part"
  proof (rule toLowerCase_fixed)
    fix u assume "u \<in> set part"
    with eq have "u \<in> set (toLowerCase s)" by simp
    then show "lowerUnit u = [u]" by (rule set_toLowerCase)
  qed
qed

lemma findMatchedTerms_spec:
  assumes "lowerStable lower"
  shows "findMatchedTerms lower (KStr v) (queryTerms lower q)
     = Inr (filter (\<lambda>t. caseInsensitiveSubstring lower t v) (queryTerms lower q))"
proof -
  have "filter (\<lambda>term. includesStr (lower v) term) (queryTerms lower q)
        = filter (\<lambda>t. caseInsensitiveSubstring lower t v) (queryTerms lower q)"
    by (rule filter_cong)
       (auto simp: caseInsensitiveSubstring_def includesStr_iff queryTerms_lower [OF assms])
  then show ?thesis by (simp add: findMatchedTerms_def)
qed

lemma mapThrowing_Inr:
  "mapThrowing f xs = Inr ys \<Longrightarrow> y \<in> set ys \<Longrightarrow> \<exists>x \<in> set xs. f x = Inr y"
  by (induction xs arbitrary: ys) (auto split: sum.splits)

text \<open>
  Beyond Latin-1 the annotation follows the platform. With U+0141, the capital L with
  stroke, for its first letter, the name "Lukasz Orbitowski" is lowered by the platform
  to the same letters in lower case, U+0142 first; the term "luk", U+0142 first, is
  then matched.
\<close>

lemma findMatchedTerms_beyond_Latin1:
  assumes "lower (321 # js ''ukasz Orbitowski'') = 322 # js ''ukasz orbitowski''"
  shows "findMatchedTerms lower (KStr (321 # js ''ukasz Orbitowski'')) [322 # js ''uk'']
     = Inr [322 # js ''uk'']"
  using assms by (simp add: findMatchedTerms_def js_def)

lemma bucketSuggestion_spec:
  "lowerStable lower \<Longrightarrow> bucketSuggestion lower (queryTerms lower q) b = Inr s \<Longrightarrow>
   \<exists>v. sugValue s = KStr v
     \<and> matchedTerms s = filter (\<lambda>t. caseInsensitiveSubstring lower t v) (queryTerms lower q)"
  by (cases "key b") (auto simp: bucketSuggestion_def findMatchedTerms_spec,
      auto simp: findMatchedTerms_def)

lemma hitSuggestion_spec:
  "lowerStable lower \<Longrightarrow> hitSuggestion lower (queryTerms lower q) h = Inr t \<Longrightarrow>
   titleMatchedTerms t
     = filter (\<lambda>term. caseInsensitiveSubstring lower term (titleValue t)) (queryTerms lower q)"
  by (auto simp: hitSuggestion_def findMatchedTerms_spec)

lemma buildResponse_Inr:
  assumes "buildResponse lower q af a t g y = Inr p"
  shows "query p = q"
    and "\<exists>as. mapThrowing (bucketSuggestion lower (queryTerms lower q))
                 (bucketsOf ''authors'' (unwrap a)) = Inr as
           \<and> resAuthors p = as"
    and "\<exists>ts. mapThrowing (hitSuggestion lower (queryTerms lower q)) (hitsOf (unwrap t)) = Inr ts
           \<and> resTitles p = ts"
    and "\<exists>gs. mapThrowing (bucketSuggestion lower (queryTerms lower q))
                 (bucketsOf ''genres'' (unwrap g)) = Inr gs
           \<and> resGenres p = gs"
    and "resYears p =
           (case yearPattern q of
              Some yps \<Rightarrow> filter (yearMatches yps)
                  (map (\<lambda>b. \<lparr> yearValue = key b, yearCount = doc_count b \<rparr>) (bucketsOf ''years'' (unwrap y)))
            | None \<Rightarrow> map (\<lambda>b. \<lparr> yearValue = key b, yearCount = doc_count b \<rparr>) (bucketsOf ''years'' (unwrap y)))"
  using assms by (auto simp: buildResponse_def Let_def split: sum.splits)

lemma suggest_Suggestions:
  assumes "fst (suggest lower hp es order qParam af) = Suggestions p"
  shows "\<exists>q results. qParam = Some q \<and> 2 \<le> length q
           \<and> promiseAll order (map (settle es) (fanOut lower hp q af)) = Inr results
           \<and> buildResponse lower q af (results ! 0) (results ! 1) (results ! 2) (results ! 3) = Inr p"
  using assms
  by (cases qParam) (auto simp: suggest_def Let_def split: if_splits sum.splits)

text \<open>
  Claim C5. In every full answer, the \<open>matchedTerms\<close> of each suggestion of the
  authors and genres lists, whose value is then a string, and of each suggestion of the
  titles list are the terms of the residual lowercase query, in their order, that are
  case-insensitive substrings of the suggestion's value (for a title, of the book
  title). Lowering is the platform's \<open>toLowerCase\<close>, of which the statement asks that
  lowered text is lowercase.
\<close>

theorem match_annotation:
  assumes stable: "lowerStable lower"
    and run: "fst (suggest lower hp es order qParam af) = Suggestions p"
  shows "(\<forall>s \<in> set (resAuthors p) \<union> set (resGenres p).
            \<exists>v. sugValue s = KStr v
              \<and> matchedTerms s
                  = filter (\<lambda>t. caseInsensitiveSubstring lower t v) (queryTerms lower (query p)))
       \<and> (\<forall>t \<in> set (resTitles p).
            titleMatchedTerms t
              = filter (\<lambda>term. caseInsensitiveSubstring lower term (titleValue t))
                  (queryTerms lower (query p)))"
proof -
  from suggest_Suggestions [OF run] obtain q results where
    b: "buildResponse lower q af (results ! 0) (results ! 1) (results ! 2) (results ! 3) = Inr p"
    by blast
  note r = buildResponse_Inr [OF b]
  show ?thesis
  proof (intro conjI ballI)
    fix s assume "s \<in> set (resAuthors p) \<union> set (resGenres p)"
    with r(2,4) obtain bk where "bucketSuggestion lower (queryTerms lower q) bk = Inr s"
      by (auto dest: mapThrowing_Inr)
    then show "\<exists>v. sugValue s = KStr v
              \<and> matchedTerms s
                  = filter (\<lambda>t. caseInsensitiveSubstring lower t v) (queryTerms lower (query p))"
      using r(1) stable by (simp add: bucketSuggestion_spec)
  next
    fix t assume "t \<in> set (resTitles p)"
    with r(3) obtain h where "hitSuggestion lower (queryTerms lower q) h = Inr t"
      by (auto dest: mapThrowing_Inr)
    then show "titleMatchedTerms t
              = filter (\<lambda>term. caseInsensitiveSubstring lower term (titleValue t))
                  (queryTerms lower (query p))"
      using r(1) stable by (simp add: hitSuggestion_spec)
  qed
qed

subsection \<open>The years category\<close>

lemma issued_mem: "r \<in> set (issued xs) \<longleftrightarrow> Inl r \<in> set xs"
  by (induction xs rule: issued.induct) auto

lemma fanOut_years_standin:
  assumes "map (settle es) (fanOut lower hp q af) = map Inr results"
  shows "results ! 3 = (case yearPattern q of
                          None \<Rightarrow> noBuckets ''years''
                        | Some yps \<Rightarrow> projr (es (yearsRequest yps af)))"
proof -
  have "length (map (settle es) (fanOut lower hp q af)) = 4" by (simp add: fanOut_def)
  with assms have "length results = 4" by simp
  then obtain a b c d where r: "results = [a, b, c, d]"
    by (cases results; cases "tl results"; cases "tl (tl results)"; cases "tl (tl (tl results))")
       auto
  with assms show ?thesis
    by (auto simp: fanOut_def settle_def split: option.splits)
qed

lemma isYearsQuery_requests:
  "\<not> isYearsQuery (authorsRequest hp tq af)"
  "\<not> isYearsQuery (titlesRequest hp tq af)"
  "\<not> isYearsQuery (genresRequest terms af)"
  "isYearsQuery (yearsRequest yps af)"
  by (simp_all add: isYearsQuery_def authorsRequest_def titlesRequest_def genresRequest_def
        yearsRequest_def)

text \<open>
  Claim C6. The handler issues a years query exactly when the raw query holds a year
  pattern: none without a pattern, and one, matching the patterns found, with it. A years request aggregates \<open>releaseYear\<close>
  under the name \<open>years\<close> with size 10, ordered by key, descending. Every year of
  the final list is one whose text starts with one of the patterns found; without a
  pattern the list is empty.
\<close>

theorem years_category:
  assumes run: "suggest lower hp es order (Some q) af = (resp, reqs)"
  shows "filter isYearsQuery reqs
           = (case yearPattern q of None \<Rightarrow> [] | Some yps \<Rightarrow> [yearsRequest yps af])
       \<and> aggs (yearsRequest yps' af)
           = Some \<lparr> aggName = ''years'', aggField = ''releaseYear'', aggSize = 10,
                    aggOrderKeyDesc = True \<rparr>
       \<and> (\<forall>p y. resp = Suggestions p \<and> y \<in> set (resYears p) \<longrightarrow>
             (\<exists>yps. yearPattern q = Some yps
                \<and> (\<exists>yp \<in> set yps. startsWith (toString (yearValue y)) yp)))"
proof (intro conjI allI impI)
  show "filter isYearsQuery reqs
           = (case yearPattern q of None \<Rightarrow> [] | Some yps \<Rightarrow> [yearsRequest yps af])"
  proof (cases "length q < 2")
    case True
    then have "length (trim q) < 2" using length_trim_le [of q] by simp
    then have "yearPattern q = None" by (rule short_yearPattern)
    moreover from run True have "reqs = []"
      using suggest_issued [of lower hp es order q af] by simp
    ultimately show ?thesis by simp
  next
    case False
    with run have "reqs = issued (fanOut lower hp q af)"
      using suggest_issued [of lower hp es order q af] by simp
    then show ?thesis
      by (simp add: issued_fanOut isYearsQuery_requests split: option.splits)
  qed
next
  show "aggs (yearsRequest yps' af)
           = Some \<lparr> aggName = ''years'', aggField = ''releaseYear'', aggSize = 10,
                    aggOrderKeyDesc = True \<rparr>"
    by (simp add: yearsRequest_def)
next
  fix p y
  assume a: "resp = Suggestions p \<and> y \<in> set (resYears p)"
  with run have "fst (suggest lower hp es order (Some q) af) = Suggestions p" by simp
  from suggest_Suggestions [OF this] obtain results where
    pa: "promiseAll order (map (settle es) (fanOut lower hp q af)) = Inr results"
    and b: "buildResponse lower q af (results ! 0) (results ! 1) (results ! 2) (results ! 3) = Inr p"
    by auto
  from promiseAll_Inr [OF pa] have r3: "results ! 3 = (case yearPattern q of
                          None \<Rightarrow> noBuckets ''years''
                        | Some yps \<Rightarrow> projr (es (yearsRequest yps af)))"
    by (rule fanOut_years_standin)
  show "\<exists>yps. yearPattern q = Some yps
                \<and> (\<exists>yp \<in> set yps. startsWith (toString (yearValue y)) yp)"
  proof (cases "yearPattern q")
    case None
    with r3 buildResponse_Inr(5) [OF b] have "resYears p = []"
      by (simp add: noBuckets_def bucketsOf_def)
    with a show ?thesis by simp
  next
    case (Some yps)
    with buildResponse_Inr(5) [OF b] a have "yearMatches yps y" by simp
    then show ?thesis using Some by (auto simp: yearMatches_def list_ex_iff)
  qed
qed

subsection \<open>All or nothing\<close>

lemma settled_failure:
  "Inl e \<in> set (map (settle es) calls) \<Longrightarrow> \<exists>r. Inl r \<in> set calls \<and> es r = Inl e"
  by (induction calls) (auto simp: settle_def split: sum.splits)

text \<open>
  Claim C9. If any of the requests the handler issues fails, then whatever the order
  in which the promises settle, the response has status 500, carries the message (and
  details) of the error of one of the failed requests, and holds no list; and a
  response of status 200 is only given when every issued request resolved.
\<close>

theorem all_or_nothing:
  "((\<exists>r \<in> set (snd (suggest lower hp es order qParam af)). isl (es r)) \<longrightarrow>
      (\<exists>r \<in> set (snd (suggest lower hp es order qParam af)). \<exists>e. es r = Inl e
          \<and> fst (suggest lower hp es order qParam af) = Error500 (errMessage e) (errDetails e))
      \<and> statusOf (fst (suggest lower hp es order qParam af)) = 500
      \<and> fourLists (fst (suggest lower hp es order qParam af)) = None)
   \<and> (statusOf (fst (suggest lower hp es order qParam af)) = 200 \<longrightarrow>
        (\<forall>r \<in> set (snd (suggest lower hp es order qParam af)). \<exists>v. es r = Inr v))"
proof -
  have main: "(\<exists>r \<in> set (snd (suggest lower hp es order qParam af)). \<exists>e. es r = Inl e
          \<and> fst (suggest lower hp es order qParam af) = Error500 (errMessage e) (errDetails e))"
    if fails: "\<exists>r \<in> set (snd (suggest lower hp es order qParam af)). isl (es r)"
  proof -
    from fails obtain q where q: "qParam = Some q" and long: "\<not> length q < 2"
      by (cases qParam) (auto simp: suggest_def split: if_splits)
    let ?calls = "fanOut lower hp q af"
    from q long have reqs: "snd (suggest lower hp es order qParam af) = issued ?calls"
      by (simp add: suggest_issued)
    with fails obtain r e0 where "Inl r \<in> set ?calls" "es r = Inl e0"
      by (auto simp: issued_mem isl_def)
    then have "Inl e0 \<in> set (map (settle es) ?calls)"
      by (force simp: settle_def)
    then have mem: "Inl e0 \<in> set (map (settle es) ?calls)" .
    have "\<not> (\<exists>vs. promiseAll order (map (settle es) ?calls) = Inr vs)"
    proof
      assume "\<exists>vs. promiseAll order (map (settle es) ?calls) = Inr vs"
      then obtain vs where "map (settle es) ?calls = map Inr vs"
        using promiseAll_Inr by blast
      with mem have "Inl e0 \<in> set (map Inr vs)"
        by simp
      then show False by auto
    qed
    then obtain e where pe: "promiseAll order (map (settle es) ?calls) = Inl e"
      by (cases "promiseAll order (map (settle es) ?calls)") auto
    then have "Inl e \<in> set (map (settle es) ?calls)" by (rule promiseAll_Inl)
    then obtain r' where "Inl r' \<in> set ?calls" "es r' = Inl e"
      using settled_failure by blast
    moreover from pe q long
    have "fst (suggest lower hp es order qParam af) = Error500 (errMessage e) (errDetails e)"
      by (simp add: suggest_def Let_def)
    ultimately show ?thesis using reqs by (auto simp: issued_mem)
  qed
  show ?thesis
  proof (intro conjI impI)
    assume f: "\<exists>r \<in> set (snd (suggest lower hp es order qParam af)). isl (es r)"
    from main [OF f]
    show "\<exists>r \<in> set (snd (suggest lower hp es order qParam af)). \<exists>e. es r = Inl e
          \<and> fst (suggest lower hp es order qParam af) = Error500 (errMessage e) (errDetails e)" .
    with main [OF f] show "statusOf (fst (suggest lower hp es order qParam af)) = 500" by auto
    from main [OF f] show "fourLists (fst (suggest lower hp es order qParam af)) = None" by auto
  next
    assume ok: "statusOf (fst (suggest lower hp es order qParam af)) = 200"
    show "\<forall>r \<in> set (snd (suggest lower hp es order qParam af)). \<exists>v. es r = Inr v"
    proof
      fix r assume r: "r \<in> set (snd (suggest lower hp es order qParam af))"
      show "\<exists>v. es r = Inr v"
      proof (cases "es r")
        case (Inl e)
        with r have "\<exists>r \<in> set (snd (suggest lower hp es order qParam af)). isl (es r)" by force
        from main [OF this] ok show ?thesis by auto
      next
        case (Inr v)
        then show ?thesis by simp
      qed
    qed
  qed
qed

subsection \<open>A run of the handler on a sample catalogue\<close>

lemma sample_scan: "scanYears False (js ''Dan 20'') = [Kept 68, Kept 97, Kept 110, Kept 32, Matched [50, 48]]"
  by (simp add: js_def matchYear_def atBoundary_def isWordChar_def isDigit_def digitsThenBoundary_def)

lemma sample_yearPattern: "yearPattern (js ''Dan 20'') = Some [js ''20'']"
  by (simp add: yearPattern_def sample_scan) (simp add: js_def)

lemma sample_textQuery: "textQuery (js ''Dan 20'') = js ''Dan''"
  by (simp add: textQuery_def sample_scan) (simp add: js_eval)

lemma sample_queryTerms: "queryTerms toLowerCase (js ''Dan 20'') = [js ''dan'']"
  by (simp add: queryTerms_def sample_textQuery) (simp add: js_eval)



lemma sample_fanOut:
  "fanOut toLowerCase False (js ''Dan 20'') sampleFilters
     = [Inl (authorsRequest False (js ''Dan'') sampleFilters),
        Inl (titlesRequest False (js ''Dan'') sampleFilters),
        Inl (genresRequest [js ''dan''] sampleFilters),
        Inl (yearsRequest [js ''20''] sampleFilters)]"
  by (simp add: fanOut_def sample_textQuery sample_yearPattern sample_queryTerms)
     (simp add: js_def)

lemma sample_answers:
  "sampleEngine (authorsRequest False tq af)
     = Inr (Bare \<lparr> hits = None, aggregations = [''authors'' \<mapsto>
          [\<lparr> key = KStr (js ''Daniel Hurst''), doc_count = 2 \<rparr>,
           \<lparr> key = KStr (js ''Dan Brown''), doc_count = 4 \<rparr>]] \<rparr>)"
  "sampleEngine (titlesRequest False tq af)
     = Inr (Bare \<lparr> hits = Some [\<lparr> hitId = js ''b3'', hitTitle = js ''Den yttersta hemligheten'',
                     hitAuthor = js ''Dan Brown'', hitReleaseYear = 2017, hitRating = 18 / 5 \<rparr>],
                   aggregations = Map.empty \<rparr>)"
  "sampleEngine (genresRequest terms af)
     = Inr (Wrapped \<lparr> hits = None, aggregations = [''genres'' \<mapsto> []] \<rparr>)"
  "sampleEngine (yearsRequest yps af)
     = Inr (Bare \<lparr> hits = None, aggregations = [''years'' \<mapsto>
          [\<lparr> key = KNum 2024, doc_count = 5 \<rparr>, \<lparr> key = KNum 2017, doc_count = 6 \<rparr>,
           \<lparr> key = KNum 1202, doc_count = 3 \<rparr>]] \<rparr>)"
  by (simp_all add: sampleEngine_def authorsRequest_def titlesRequest_def genresRequest_def
        yearsRequest_def)

lemma sample_matched:
  "findMatchedTerms toLowerCase (KStr (js ''Daniel Hurst'')) [js ''dan''] = Inr [js ''dan'']"
  "findMatchedTerms toLowerCase (KStr (js ''Dan Brown'')) [js ''dan''] = Inr [js ''dan'']"
  "findMatchedTerms toLowerCase (KStr (js ''Den yttersta hemligheten'')) [js ''dan''] = Inr []"
  by (simp_all add: findMatchedTerms_def js_def toLowerCase_def lowerUnit_def)

lemma sample_years:
  "yearMatches [js ''20''] \<lparr> yearValue = KNum 2024, yearCount = 5 \<rparr>"
  "yearMatches [js ''20''] \<lparr> yearValue = KNum 2017, yearCount = 6 \<rparr>"
  "\<not> yearMatches [js ''20''] \<lparr> yearValue = KNum 1202, yearCount = 3 \<rparr>"
  by (simp_all add: yearMatches_def toString_def js_def)

lemma pa4: "promiseAll order [Inr a, Inr b, Inr c, Inr d] = Inr [a, b, c, d]"
  using promiseAll_all_Inr [of order "[a, b, c, d]"] by simp

lemma sample_settled:
  "map (settle sampleEngine) (fanOut toLowerCase False (js ''Dan 20'') sampleFilters)
    = [sampleEngine (authorsRequest False (js ''Dan'') sampleFilters),
       sampleEngine (titlesRequest False (js ''Dan'') sampleFilters),
       sampleEngine (genresRequest [js ''dan''] sampleFilters),
       sampleEngine (yearsRequest [js ''20''] sampleFilters)]"
  by (simp add: sample_fanOut settle_def)

lemma sample_authors:
  "mapThrowing (bucketSuggestion toLowerCase [js ''dan''])
     [\<lparr> key = KStr (js ''Daniel Hurst''), doc_count = 2 \<rparr>,
      \<lparr> key = KStr (js ''Dan Brown''), doc_count = 4 \<rparr>]
   = Inr [\<lparr> sugValue = KStr (js ''Daniel Hurst''), sugCount = 2, matchedTerms = [js ''dan''] \<rparr>,
          \<lparr> sugValue = KStr (js ''Dan Brown''), sugCount = 4, matchedTerms = [js ''dan''] \<rparr>]"
  by (simp add: bucketSuggestion_def sample_matched)

lemma sample_titles:
  "mapThrowing (hitSuggestion toLowerCase [js ''dan''])
     [\<lparr> hitId = js ''b3'', hitTitle = js ''Den yttersta hemligheten'',
        hitAuthor = js ''Dan Brown'', hitReleaseYear = 2017, hitRating = 18 / 5 \<rparr>]
   = Inr [\<lparr> titleId = js ''b3'', titleValue = js ''Den yttersta hemligheten'',
                      titleAuthor = js ''Dan Brown'', titleYear = 2017, titleRating = 18 / 5,
                      titleMatchedTerms = [] \<rparr>]"
  by (simp add: hitSuggestion_def sample_matched)

lemma sample_response:
  "buildResponse toLowerCase (js ''Dan 20'') sampleFilters
     (Bare \<lparr> hits = None, aggregations = [''authors'' \<mapsto>
          [\<lparr> key = KStr (js ''Daniel Hurst''), doc_count = 2 \<rparr>,
           \<lparr> key = KStr (js ''Dan Brown''), doc_count = 4 \<rparr>]] \<rparr>)
     (Bare \<lparr> hits = Some [\<lparr> hitId = js ''b3'', hitTitle = js ''Den yttersta hemligheten'',
                     hitAuthor = js ''Dan Brown'', hitReleaseYear = 2017, hitRating = 18 / 5 \<rparr>],
                   aggregations = Map.empty \<rparr>)
     (Wrapped \<lparr> hits = None, aggregations = [''genres'' \<mapsto> []] \<rparr>)
     (Bare \<lparr> hits = None, aggregations = [''years'' \<mapsto>
          [\<lparr> key = KNum 2024, doc_count = 5 \<rparr>, \<lparr> key = KNum 2017, doc_count = 6 \<rparr>,
           \<lparr> key = KNum 1202, doc_count = 3 \<rparr>]] \<rparr>)
   = Inr samplePayload"
  unfolding buildResponse_def sample_queryTerms sample_yearPattern sample_textQuery
  by (simp add: bucketsOf_def hitsOf_def sample_authors sample_titles sample_years
        samplePayload_def del: mapThrowing.simps(2))


lemma sample_run:
  "suggest toLowerCase False sampleEngine [] (Some (js ''Dan 20'')) sampleFilters
     = (Suggestions samplePayload,
        [authorsRequest False (js ''Dan'') sampleFilters,
         titlesRequest False (js ''Dan'') sampleFilters,
         genresRequest [js ''dan''] sampleFilters,
         yearsRequest [js ''20''] sampleFilters])"
proof -
  have len: "\<not> length (js ''Dan 20'') < 2" by (simp add: js_def)
  have pa: "promiseAll [] (map (settle sampleEngine) (fanOut toLowerCase False (js ''Dan 20'') sampleFilters))
     = Inr [Bare \<lparr> hits = None, aggregations = [''authors'' \<mapsto>
          [\<lparr> key = KStr (js ''Daniel Hurst''), doc_count = 2 \<rparr>,
           \<lparr> key = KStr (js ''Dan Brown''), doc_count = 4 \<rparr>]] \<rparr>,
          Bare \<lparr> hits = Some [\<lparr> hitId = js ''b3'', hitTitle = js ''Den yttersta hemligheten'',
                     hitAuthor = js ''Dan Brown'', hitReleaseYear = 2017, hitRating = 18 / 5 \<rparr>],
                   aggregations = Map.empty \<rparr>,
          Wrapped \<lparr> hits = None, aggregations = [''genres'' \<mapsto> []] \<rparr>,
          Bare \<lparr> hits = None, aggregations = [''years'' \<mapsto>
          [\<lparr> key = KNum 2024, doc_count = 5 \<rparr>, \<lparr> key = KNum 2017, doc_count = 6 \<rparr>,
           \<lparr> key = KNum 1202, doc_count = 3 \<rparr>]] \<rparr>]"
    unfolding sample_settled sample_answers by (rule pa4)
  have iss: "issued (fanOut toLowerCase False (js ''Dan 20'') sampleFilters)
     = [authorsRequest False (js ''Dan'') sampleFilters,
         titlesRequest False (js ''Dan'') sampleFilters,
         genresRequest [js ''dan''] sampleFilters,
         yearsRequest [js ''20''] sampleFilters]"
    unfolding sample_fanOut by simp
  show ?thesis
    using len by (simp add: suggest_def Let_def pa iss sample_response)
qed

theorem match_annotation_witness:
  "(\<exists>v. KStr (js ''Daniel Hurst'') = KStr v
       \<and> [js ''dan''] = filter (\<lambda>t. caseInsensitiveSubstring toLowerCase t v)
                          (queryTerms toLowerCase (js ''Dan 20'')))
   \<and> [] = filter (\<lambda>term. caseInsensitiveSubstring toLowerCase term (js ''Den yttersta hemligheten''))
             (queryTerms toLowerCase (js ''Dan 20''))"
proof -
  have run: "fst (suggest toLowerCase False sampleEngine [] (Some (js ''Dan 20'')) sampleFilters)
      = Suggestions samplePayload"
    by (simp add: sample_run)
  have a: "\<lparr> sugValue = KStr (js ''Daniel Hurst''), sugCount = 2, matchedTerms = [js ''dan''] \<rparr>
      \<in> set (resAuthors samplePayload) \<union> set (resGenres samplePayload)"
    by (simp add: samplePayload_def)
  have t: "\<lparr> titleId = js ''b3'', titleValue = js ''Den yttersta hemligheten'',
                      titleAuthor = js ''Dan Brown'', titleYear = 2017, titleRating = 18 / 5,
                      titleMatchedTerms = [] \<rparr> \<in> set (resTitles samplePayload)"
    by (simp add: samplePayload_def)
  have q: "query samplePayload = js ''Dan 20''" by (simp add: samplePayload_def)
  from match_annotation [OF toLowerCase_stable run] have
    "\<forall>s \<in> set (resAuthors samplePayload) \<union> set (resGenres samplePayload).
            \<exists>v. sugValue s = KStr v
              \<and> matchedTerms s
                  = filter (\<lambda>t. caseInsensitiveSubstring toLowerCase t v)
                      (queryTerms toLowerCase (js ''Dan 20''))"
    and "\<forall>t \<in> set (resTitles samplePayload).
            titleMatchedTerms t
              = filter (\<lambda>term. caseInsensitiveSubstring toLowerCase term (titleValue t))
                  (queryTerms toLowerCase (js ''Dan 20''))"
    unfolding q by blast+
  from this(1) [rule_format, OF a] this(2) [rule_format, OF t] show ?thesis
    by simp
qed

theorem years_category_witness:
  "filter isYearsQuery
     [authorsRequest False (js ''Dan'') sampleFilters,
      titlesRequest False (js ''Dan'') sampleFilters,
      genresRequest [js ''dan''] sampleFilters,
      yearsRequest [js ''20''] sampleFilters]
     = [yearsRequest [js ''20''] sampleFilters]
   \<and> (\<exists>yps. yearPattern (js ''Dan 20'') = Some yps
         \<and> (\<exists>yp \<in> set yps. startsWith (toString (KNum 2024)) yp))"
proof -
  have y: "Suggestions samplePayload = Suggestions samplePayload
      \<and> \<lparr> yearValue = KNum 2024, yearCount = 5 \<rparr> \<in> set (resYears samplePayload)"
    by (simp add: samplePayload_def)
  from years_category [OF sample_run, of "[]"] y show ?thesis
    by (simp add: sample_yearPattern) fastforce
qed

lemma sampleEngine_ok: "sampleEngine r \<noteq> Inl e"
  by (simp add: sampleEngine_def)

lemma failingEngine_Inl: "failingEngine r = Inl e \<Longrightarrow> e = indexMissing"
  by (auto simp: failingEngine_def sampleEngine_ok split: if_splits)

theorem all_or_nothing_witness:
  "fst (suggest toLowerCase False failingEngine [3, 1] (Some (js ''Dan 20'')) sampleFilters)
     = Error500 (js ''index_not_found_exception'') None
   \<and> fourLists (fst (suggest toLowerCase False failingEngine [3, 1] (Some (js ''Dan 20'')) sampleFilters))
     = None"
proof -
  have len: "\<not> length (js ''Dan 20'') < 2" by (simp add: js_def)
  have "titlesRequest False (js ''Dan'') sampleFilters
      \<in> set (snd (suggest toLowerCase False failingEngine [3, 1] (Some (js ''Dan 20'')) sampleFilters))"
    using len by (simp add: suggest_issued sample_fanOut)
  moreover have "isl (failingEngine (titlesRequest False (js ''Dan'') sampleFilters))"
    by (simp add: failingEngine_def titlesRequest_def)
  ultimately have
    "\<exists>r \<in> set (snd (suggest toLowerCase False failingEngine [3, 1] (Some (js ''Dan 20'')) sampleFilters)).
       isl (failingEngine r)"
    by blast
  with all_or_nothing [of toLowerCase False failingEngine "[3, 1]" "Some (js ''Dan 20'')" sampleFilters]
  obtain r e where "failingEngine r = Inl e"
    and "fst (suggest toLowerCase False failingEngine [3, 1] (Some (js ''Dan 20'')) sampleFilters)
           = Error500 (errMessage e) (errDetails e)"
    by blast
  then show ?thesis
    by (auto dest!: failingEngine_Inl simp: indexMissing_def)
qed

theorem asymmetric_filtering_witness:
  "map filterClauses (snd (suggest toLowerCase False sampleEngine [] (Some (js ''Dan 20'')) sampleFilters))
     = [TermsNum ''releaseYear'' [2017]]
       # [TermsStr ''author.keyword'' [js ''Dan Brown''], TermsNum ''releaseYear'' [2017]]
       # [TermsStr ''author.keyword'' [js ''Dan Brown''], TermsNum ''releaseYear'' [2017]]
       # [TermsStr ''author.keyword'' [js ''Dan Brown'']]
       # []"
proof -
  have len: "\<not> length (js ''Dan 20'') < 2" "2 \<le> length (js ''Dan'')" by (simp_all add: js_def)
  have f: "authorFilter sampleFilters = [TermsStr ''author.keyword'' [js ''Dan Brown'']]"
    "genreFilter sampleFilters = []"
    "yearFilter sampleFilters = [TermsNum ''releaseYear'' [2017]]"
    by (simp_all add: authorFilter_def genreFilter_def yearFilter_def sampleFilters_def)
  from asymmetric_filtering [of toLowerCase False sampleEngine "[]" "js ''Dan 20''" sampleFilters]
  show ?thesis
    using len by (simp add: sample_textQuery sample_yearPattern sample_queryTerms f)
qed

subsection \<open>Year extraction\<close>

lemma digit_word: "isDigit c \<Longrightarrow> isWordChar c"
  by (simp add: isWordChar_def)

lemma digitsThenBoundary_iff:
  "digitsThenBoundary k x \<longleftrightarrow>
     (length (takeWhile isWordChar x) = k \<and> list_all isDigit (takeWhile isWordChar x))"
proof (induction x arbitrary: k)
  case Nil
  then show ?case by (auto simp: digitsThenBoundary_def atBoundary_def)
next
  case (Cons c cs)
  show ?case
  proof (cases k)
    case 0
    then show ?thesis by (auto simp: digitsThenBoundary_def atBoundary_def)
  next
    case (Suc k')
    have "digitsThenBoundary (Suc k') (c # cs) \<longleftrightarrow> isDigit c \<and> digitsThenBoundary k' cs"
      by (auto simp: digitsThenBoundary_def)
    with Cons.IH [of k'] Suc show ?thesis
      by (auto simp: digit_word)
  qed
qed

lemma matchYear_iff:
  "matchYear p s =
     (if \<not> p \<and> isYearWord (takeWhile isWordChar s)
      then Some (length (takeWhile isWordChar s)) else None)"
proof -
  have w: "isWordChar 49" "isWordChar 57" "isWordChar 50" "isWordChar 48"
    by (simp_all add: isWordChar_def isDigit_def)
  consider (short) "length s < 2" | (long) a b x where "s = a # b # x"
    by (cases s; cases "tl s") auto
  then show ?thesis
  proof cases
    case short
    then have "\<not> startsWith s (js ''19'')" "\<not> startsWith s (js ''20'')"
      by (cases s; cases "tl s"; simp add: js19 js20)+
    moreover from short have "length (takeWhile isWordChar s) < 2"
      using length_takeWhile_le [of isWordChar s] by simp
    then have "\<not> startsWith (takeWhile isWordChar s) (js ''19'')"
      "\<not> startsWith (takeWhile isWordChar s) (js ''20'')"
      by (cases "takeWhile isWordChar s"; cases "tl (takeWhile isWordChar s)"; simp add: js19 js20)+
    ultimately show ?thesis by (simp add: matchYear_def isYearWord_def)
  next
    case long
    show ?thesis
    proof (cases "(a = 49 \<and> b = 57) \<or> (a = 50 \<and> b = 48)")
      case False
      with long have "\<not> startsWith s (js ''19'')" "\<not> startsWith s (js ''20'')"
        by (auto simp: js19 js20)
      moreover from False long have "\<not> startsWith (takeWhile isWordChar s) (js ''19'')"
        "\<not> startsWith (takeWhile isWordChar s) (js ''20'')"
        by (auto simp: js19 js20)
      ultimately show ?thesis by (simp add: matchYear_def isYearWord_def)
    next
      case True
      with long w have tw: "takeWhile isWordChar s = a # b # takeWhile isWordChar x"
        by auto
      from True long have st: "startsWith s (js ''19'') \<or> startsWith s (js ''20'')"
        by (auto simp: js19 js20)
      from True tw have st': "startsWith (takeWhile isWordChar s) (js ''19'')
          \<or> startsWith (takeWhile isWordChar s) (js ''20'')"
        by (auto simp: js19 js20)
      from True long w have ab: "atBoundary p s = (\<not> p)"
        by (auto simp: atBoundary_def)
      have yw: "isYearWord (takeWhile isWordChar s) \<longleftrightarrow>
          length (takeWhile isWordChar x) \<le> 2 \<and> list_all isDigit (takeWhile isWordChar x)"
        using st' tw by (auto simp: isYearWord_def)
      from long have dr: "drop 2 s = x" by simp
      show ?thesis
        unfolding matchYear_def dr digitsThenBoundary_iff ab yw
        using st tw by (auto simp: le_Suc_eq numeral_2_eq_2)
    qed
  qed
qed

lemma dropWhile_head: "dropWhile P s = [] \<or> \<not> P (hd (dropWhile P s))"
  by (metis hd_dropWhile)

lemma not_isYearWord_Nil: "\<not> isYearWord []"
  by (simp add: isYearWord_def js19 js20)

lemma scan_nonword: "\<not> isWordChar c \<Longrightarrow> scanYears p (c # cs) = Kept c # scanYears False cs"
  by (simp add: matchYear_iff not_isYearWord_Nil)

lemma scan_inside:
  "scanYears True s = map Kept (takeWhile isWordChar s) @ scanYears True (dropWhile isWordChar s)"
  by (induction s) (auto simp: matchYear_iff)

lemma scan_restart: "s = [] \<or> \<not> isWordChar (hd s) \<Longrightarrow> scanYears True s = scanYears False s"
  by (cases s) (auto simp: scan_nonword simp del: scanYears.simps(2))

lemma scan_word:
  assumes "isWordChar c"
  shows "scanYears False (c # cs) =
     (if isYearWord (c # takeWhile isWordChar cs)
      then [Matched (c # takeWhile isWordChar cs)]
      else map Kept (c # takeWhile isWordChar cs))
     @ scanYears False (dropWhile isWordChar cs)"
proof -
  let ?w = "c # takeWhile isWordChar cs"
  from assms have tw: "takeWhile isWordChar (c # cs) = ?w" by simp
  have rest: "scanYears True (dropWhile isWordChar cs) = scanYears False (dropWhile isWordChar cs)"
    using dropWhile_head [of isWordChar cs] by (rule scan_restart)
  show ?thesis
  proof (cases "isYearWord ?w")
    case True
    with assms have m: "matchYear False (c # cs) = Some (length ?w)"
      by (simp add: matchYear_iff)
    have "take (length (takeWhile isWordChar cs)) cs = takeWhile isWordChar cs"
      by (simp add: takeWhile_eq_take [symmetric])
    moreover have "drop (length (takeWhile isWordChar cs)) cs = dropWhile isWordChar cs"
      by (simp add: dropWhile_eq_drop [symmetric])
    ultimately show ?thesis using True m rest assms by simp
  next
    case False
    with assms have m: "matchYear False (c # cs) = None"
      by (simp add: matchYear_iff)
    with False assms rest show ?thesis
      using scan_inside [of cs] by simp
  qed
qed

lemma matchedOf_append: "matchedOf (xs @ ys) = matchedOf xs @ matchedOf ys"
  by (induction xs rule: matchedOf.induct) auto

lemma keptOf_append: "keptOf (xs @ ys) = keptOf xs @ keptOf ys"
  by (induction xs rule: keptOf.induct) auto

lemma matched_words: "matchedOf (scanYears False s) = filter isYearWord (wordsOf s)"
  unfolding wordsOf_def
proof (induction isWordChar s rule: runsOf.induct)
  case 1
  then show ?case by simp
next
  case (2 c cs)
  show ?case
  proof (cases "isWordChar c")
    case True
    with 2 show ?thesis
      by (simp add: scan_word matchedOf_append matchedOf_Kept del: scanYears.simps)
  next
    case False
    with 2 show ?thesis by (simp add: scan_nonword del: scanYears.simps)
  qed
qed

lemma kept_words: "keptOf (scanYears False s) = removeWords isYearWord s"
proof (induction isYearWord s rule: removeWords.induct)
  case 1
  then show ?case by simp
next
  case (2 c cs)
  show ?case
  proof (cases "isWordChar c")
    case True
    with 2 show ?thesis
      by (simp add: scan_word keptOf_append keptOf_Kept del: scanYears.simps)
  next
    case False
    with 2 show ?thesis by (simp add: scan_nonword del: scanYears.simps)
  qed
qed

lemma extractedYears_words: "extractedYears q = filter isYearWord (wordsOf q)"
  by (simp add: extractedYears_def yearPattern_def Let_def matched_words)

lemma textQuery_words: "textQuery q = trim (removeWords isYearWord q)"
  by (simp add: textQuery_def kept_words)

lemma runsOf_none: "list_all (\<lambda>c. \<not> P c) t \<Longrightarrow> runsOf P t = []"
  by (induction t) auto

lemma takeWhile_tail:
  "list_all (\<lambda>c. \<not> P c) t \<Longrightarrow> takeWhile P (cs @ t) = takeWhile P cs"
  by (induction cs) (auto, cases t, auto)

lemma dropWhile_tail:
  "list_all (\<lambda>c. \<not> P c) t \<Longrightarrow> dropWhile P (cs @ t) = dropWhile P cs @ t"
  by (induction cs) (auto, cases t, auto)

lemma runsOf_tail: "list_all (\<lambda>c. \<not> P c) t \<Longrightarrow> runsOf P (s @ t) = runsOf P s"
proof (induction P s rule: runsOf.induct)
  case (1 P)
  then show ?case by (simp add: runsOf_none)
next
  case (2 P c cs)
  then show ?case by (simp add: takeWhile_tail dropWhile_tail)
qed

lemma runsOf_run:
  assumes "list_all P w" "w \<noteq> []" "rest = [] \<or> \<not> P (hd rest)"
  shows "runsOf P (w @ rest) = w # runsOf P rest"
proof -
  from assms obtain c w' where w: "w = c # w'" "P c" "list_all P w'"
    by (cases w) auto
  from assms(3) have t: "takeWhile P rest = []" and d: "dropWhile P rest = rest"
    by (cases rest; simp)+
  from w(3) have "takeWhile P (w' @ rest) = w' @ takeWhile P rest"
    by (simp add: takeWhile_append2 list_all_iff)
  moreover from w(3) have "dropWhile P (w' @ rest) = dropWhile P rest"
    by (simp add: dropWhile_append2 list_all_iff)
  ultimately show ?thesis using w t d by simp
qed

lemma runsOf_dropWhile:
  "(\<And>c. Q c \<Longrightarrow> \<not> P c) \<Longrightarrow> runsOf P (dropWhile Q s) = runsOf P s"
  by (induction s) auto

lemma ws_nonword: "isWhiteSpace c \<Longrightarrow> \<not> isWordChar c"
  by (auto simp: isWhiteSpace_def isWordChar_def isDigit_def)

lemma runsOf_trim:
  assumes "\<And>c. isWhiteSpace c \<Longrightarrow> \<not> P c"
  shows "runsOf P (trim s) = runsOf P s"
proof -
  let ?s' = "dropWhile isWhiteSpace s"
  let ?t = "rev (takeWhile isWhiteSpace (rev ?s'))"
  have eq: "?s' = trim s @ ?t"
    unfolding trim_def by (metis rev_append rev_rev_ident takeWhile_dropWhile_id)
  have "list_all isWhiteSpace ?t"
    by (simp add: list_all_iff) (meson set_takeWhileD)
  then have "list_all (\<lambda>c. \<not> P c) ?t"
    using assms by (auto simp: list_all_iff)
  then have "runsOf P (trim s @ ?t) = runsOf P (trim s)" by (rule runsOf_tail)
  with eq have "runsOf P ?s' = runsOf P (trim s)" by simp
  moreover have "runsOf P ?s' = runsOf P s" using assms by (rule runsOf_dropWhile)
  ultimately show ?thesis by simp
qed

lemma removeWords_head:
  "s = [] \<or> \<not> isWordChar (hd s) \<Longrightarrow>
   removeWords R s = [] \<or> \<not> isWordChar (hd (removeWords R s))"
  by (cases s) auto

lemma words_removeWords:
  "runsOf isWordChar (removeWords R s) = filter (\<lambda>w. \<not> R w) (runsOf isWordChar s)"
proof (induction R s rule: removeWords.induct)
  case (1 R)
  then show ?case by simp
next
  case (2 R c cs)
  show ?case
  proof (cases "isWordChar c")
    case False
    with 2 show ?thesis by simp
  next
    case True
    let ?w = "c # takeWhile isWordChar cs"
    let ?rest = "removeWords R (dropWhile isWordChar cs)"
    from True 2 have IH: "runsOf isWordChar ?rest
        = filter (\<lambda>w. \<not> R w) (runsOf isWordChar (dropWhile isWordChar cs))"
      by simp
    have head: "?rest = [] \<or> \<not> isWordChar (hd ?rest)"
      using dropWhile_head [of isWordChar cs] by (rule removeWords_head)
    have all: "list_all isWordChar ?w"
      using True by (simp add: list_all_iff) (meson set_takeWhileD)
    show ?thesis
    proof (cases "R ?w")
      case True
      with \<open>isWordChar c\<close> IH show ?thesis by simp
    next
      case False
      have "runsOf isWordChar (?w @ ?rest) = ?w # runsOf isWordChar ?rest"
        using all _ head by (rule runsOf_run) simp
      with False \<open>isWordChar c\<close> IH show ?thesis by simp
    qed
  qed
qed

lemma removeWords_cong:
  "(\<And>w. w \<in> set (runsOf isWordChar s) \<Longrightarrow> R w = R' w) \<Longrightarrow> removeWords R s = removeWords R' s"
proof (induction R s rule: removeWords.induct)
  case (1 R)
  then show ?case by simp
next
  case (2 R c cs)
  show ?case
  proof (cases "isWordChar c")
    case True
    with 2 show ?thesis by simp
  next
    case False
    with 2 show ?thesis by simp
  qed
qed

lemma split_terms:
  "list_all (\<lambda>c. \<not> isWhiteSpace c) cur \<Longrightarrow>
   filter (\<lambda>t. t \<noteq> []) (splitWhiteSpace cur s) = runsOf (\<lambda>c. \<not> isWhiteSpace c) (cur @ s)"
proof (induction cur s rule: splitWhiteSpace.induct)
  case (1 cur)
  show ?case
  proof (cases "cur = []")
    case True
    then show ?thesis by simp
  next
    case False
    with 1 have "runsOf (\<lambda>c. \<not> isWhiteSpace c) (cur @ []) = cur # runsOf (\<lambda>c. \<not> isWhiteSpace c) []"
      by (intro runsOf_run) auto
    with False show ?thesis by simp
  qed
next
  case (2 cur c cs)
  show ?case
  proof (cases "isWhiteSpace c")
    case False
    with 2 show ?thesis by simp
  next
    case True
    with 2 have IH: "filter (\<lambda>t. t \<noteq> []) (splitWhiteSpace [] (dropWhile isWhiteSpace cs))
        = runsOf (\<lambda>c. \<not> isWhiteSpace c) (dropWhile isWhiteSpace cs)"
      by simp
    have dw: "runsOf (\<lambda>c. \<not> isWhiteSpace c) (dropWhile isWhiteSpace cs)
        = runsOf (\<lambda>c. \<not> isWhiteSpace c) cs"
      by (rule runsOf_dropWhile) simp
    show ?thesis
    proof (cases "cur = []")
      case True
      with \<open>isWhiteSpace c\<close> IH dw show ?thesis by simp
    next
      case False
      with 2(3) \<open>isWhiteSpace c\<close>
      have "runsOf (\<lambda>c. \<not> isWhiteSpace c) (cur @ c # cs)
          = cur # runsOf (\<lambda>c. \<not> isWhiteSpace c) (c # cs)"
        by (intro runsOf_run) auto
      with False \<open>isWhiteSpace c\<close> IH dw show ?thesis by simp
    qed
  qed
qed

lemma queryTerms_runs:
  "queryTerms lower q = runsOf (\<lambda>c. \<not> isWhiteSpace c) (lower (textQuery q))"
  using split_terms [of "[]" "lower (textQuery q)"] by (simp add: queryTerms_def)

text \<open>
  Claim C3, as stated, fails. The query "ab2023" holds the run of four digits "2023",
  which starts with "20"; the expression asks for a word boundary before the digits,
  so nothing is extracted and the residual text query still holds "2023".
\<close>

theorem year_extraction_counterexample:
  "includesStr (js ''ab2023'') (js ''2023'')
   \<and> yearPattern (js ''ab2023'') = None
   \<and> textQuery (js ''ab2023'') = js ''ab2023''
   \<and> includesStr (textQuery (js ''ab2023'')) (js ''2023'')"
proof -
  have scan: "scanYears False (js ''ab2023'') = map Kept (js ''ab2023'')"
    by (simp add: js_def matchYear_def atBoundary_def isWordChar_def isDigit_def)
  have inc: "includesStr (js ''ab2023'') (js ''2023'')" by (simp add: js_def)
  have t: "textQuery (js ''ab2023'') = js ''ab2023''"
    unfolding textQuery_def scan keptOf_Kept by (simp add: js_eval)
  have y: "yearPattern (js ''ab2023'') = None"
    unfolding yearPattern_def scan matchedOf_Kept by simp
  from inc t y show ?thesis by simp
qed

text \<open>
  Claim C3, amended. Every extracted substring is a whole word of \<open>q\<close> (a maximal run
  of word characters) that consists of "19" or "20" followed by at most two digits, and
  the whole words of \<open>q\<close> that consist of "19" or "20" followed by one or two digits
  are exactly the extracted substrings of three or four digits, in their order. The
  residual text query is \<open>q\<close> with the whole words that were extracted removed, then
  trimmed; the terms are the maximal runs without white space of the residual as the
  platform's \<open>toLowerCase\<close> lowers it, each of them lowercase when lowered text is
  lowercase. Consequently no whole word of the residual text query is a year of three
  or four digits.
\<close>

theorem year_extraction:
  "(\<forall>m \<in> set (extractedYears q). m \<in> set (wordsOf q) \<and> isYearWord m)
   \<and> filter (\<lambda>m. 3 \<le> length m) (extractedYears q)
       = filter (\<lambda>w. isYearWord w \<and> 3 \<le> length w) (wordsOf q)
   \<and> textQuery q = trim (removeWords (\<lambda>w. w \<in> set (extractedYears q)) q)
   \<and> queryTerms lower q = runsOf (\<lambda>c. \<not> isWhiteSpace c) (lower (textQuery q))
   \<and> (lowerStable lower \<longrightarrow> (\<forall>t \<in> set (queryTerms lower q). lower t = t))
   \<and> (\<forall>w \<in> set (wordsOf (textQuery q)). \<not> (isYearWord w \<and> 3 \<le> length w))"
proof (intro conjI)
  show "\<forall>m \<in> set (extractedYears q). m \<in> set (wordsOf q) \<and> isYearWord m"
    by (simp add: extractedYears_words)
  show "filter (\<lambda>m. 3 \<le> length m) (extractedYears q)
       = filter (\<lambda>w. isYearWord w \<and> 3 \<le> length w) (wordsOf q)"
    by (simp add: extractedYears_words conj_commute)
  have "removeWords isYearWord q = removeWords (\<lambda>w. w \<in> set (extractedYears q)) q"
    by (rule removeWords_cong) (simp add: extractedYears_words wordsOf_def)
  then show "textQuery q = trim (removeWords (\<lambda>w. w \<in> set (extractedYears q)) q)"
    by (simp add: textQuery_words)
  show "queryTerms lower q = runsOf (\<lambda>c. \<not> isWhiteSpace c) (lower (textQuery q))"
    by (rule queryTerms_runs)
  show "lowerStable lower \<longrightarrow> (\<forall>t \<in> set (queryTerms lower q). lower t = t)"
    by (simp add: queryTerms_lower)
  have "wordsOf (textQuery q) = filter (\<lambda>w. \<not> isYearWord w) (wordsOf q)"
    unfolding wordsOf_def textQuery_words
    by (simp add: runsOf_trim ws_nonword words_removeWords)
  then show "\<forall>w \<in> set (wordsOf (textQuery q)). \<not> (isYearWord w \<and> 3 \<le> length w)"
    by simp
qed

lemma words_sample: "wordsOf (js ''In 2023 x1999'') = [js ''In'', js ''2023'', js ''x1999'']"
  by (simp add: wordsOf_def js_def isWordChar_def isDigit_def)

lemma yearWord_sample:
  "\<not> isYearWord (js ''In'')" "isYearWord (js ''2023'')" "\<not> isYearWord (js ''x1999'')"
  by (simp_all add: isYearWord_def js_def isDigit_def)

theorem year_extraction_witness:
  "extractedYears (js ''In 2023 x1999'') = [js ''2023'']
   \<and> textQuery (js ''In 2023 x1999'') = js ''In  x1999''
   \<and> queryTerms toLowerCase (js ''In 2023 x1999'') = [js ''in'', js ''x1999'']
   \<and> map toLowerCase (queryTerms toLowerCase (js ''In 2023 x1999''))
       = queryTerms toLowerCase (js ''In 2023 x1999'')"
proof -
  note inst = year_extraction [where q = "js ''In 2023 x1999''" and lower = toLowerCase]
  have len: "3 \<le> length (js ''2023'')" by (simp add: js_def)
  from inst have "filter (\<lambda>m. 3 \<le> length m) (extractedYears (js ''In 2023 x1999''))
       = [js ''2023'']"
    by (simp add: words_sample yearWord_sample len)
  moreover have "extractedYears (js ''In 2023 x1999'') = [js ''2023'']"
    by (simp add: extractedYears_words words_sample yearWord_sample)
  moreover from inst calculation(2) have "textQuery (js ''In 2023 x1999'')
      = trim (removeWords (\<lambda>w. w \<in> set [js ''2023'']) (js ''In 2023 x1999''))"
    by simp
  then have tq: "textQuery (js ''In 2023 x1999'') = js ''In  x1999''"
    by (simp add: js_def isWordChar_def isDigit_def trim_def isWhiteSpace_def)
  moreover from inst have "queryTerms toLowerCase (js ''In 2023 x1999'')
      = runsOf (\<lambda>c. \<not> isWhiteSpace c) (toLowerCase (textQuery (js ''In 2023 x1999'')))"
    by simp
  then have "queryTerms toLowerCase (js ''In 2023 x1999'') = [js ''in'', js ''x1999'']"
    unfolding tq by (simp add: js_def toLowerCase_def lowerUnit_def isWhiteSpace_def)
  moreover from inst toLowerCase_stable
  have "\<forall>t \<in> set (queryTerms toLowerCase (js ''In 2023 x1999'')). toLowerCase t = t"
    by blast
  then have "map toLowerCase (queryTerms toLowerCase (js ''In 2023 x1999''))
       = queryTerms toLowerCase (js ''In 2023 x1999'')"
    by (simp add: map_idI)
  ultimately show ?thesis by simp
qed

end
